theory Spec2Isabelle
  imports Main "HOL-Library.Word"
begin

section \<open>Data model of server.js\<close>

text \<open>
  A Buffer is a list of bytes. The hex digest of SHA-256 is 64 lower-case hexadecimal
  digits; the compression function itself belongs to Node's crypto module and is a
  parameter \<open>H\<close> of the model (a function from buffers to 256-bit words).
\<close>

type_synonym byte = "8 word"
type_synonym bytes = "byte list"
type_synonym sha256 = "bytes \<Rightarrow> 256 word"

text \<open>\<^verbatim>\<open>const CHUNK_SIZE = 10 * 10; // 1 MB\<close>\<close>

definition CHUNK_SIZE :: nat where
  "CHUNK_SIZE = 10 * 10"

text \<open>One element of the array built by \<open>chunkAndHash\<close>: \<^verbatim>\<open>{ hash, data: slice }\<close>.\<close>

record chunk =
  hash :: string
  data :: bytes

text \<open>A value of the Map \<open>fileMeta\<close>: \<^verbatim>\<open>{ signature, chunkHashes }\<close>.\<close>

record meta =
  signature :: string
  chunkHashes :: "string list"

text \<open>
  What \<open>JSON.parse\<close> followed by the destructuring in \<open>bootstrap\<close> makes of a file of the
  manifest directory: the three fields written by \<open>saveManifest\<close>, or an exception
  (truncated or otherwise corrupt text). Valid JSON of another shape is not modelled:
  no operation of the server writes it.
\<close>

datatype manifest_text = ManifestJson string string "string list" | Garbled

text \<open>
  The process state: the two directories on disk (file name to content) and the two
  in-memory indexes. \<open>fileMeta\<close> is a JavaScript Map and \<open>fileSignatures\<close> a Set; the
  insertion order of the Map is not modelled.
\<close>

record state =
  chunksDir :: "string \<rightharpoonup> bytes"
  manifestDir :: "string \<rightharpoonup> manifest_text"
  fileMeta :: "string \<rightharpoonup> meta"
  fileSignatures :: "string set"

text \<open>\<open>path.join(chunksDir, name)\<close> and \<open>path.join(manifestDir, name)\<close>.\<close>

datatype path = ChunkPath string | ManifestPath string

text \<open>
  What a call \<open>fs.writeFileSync(p, data)\<close> does. It opens \<open>p\<close> with the flag \<open>w\<close>, which
  creates the file or truncates it, and then writes the data. The call returns, or it
  throws before the file is opened, which leaves the directory as it was, or it throws
  after the file was created or truncated and only the first \<open>n\<close> bytes were written.
\<close>

datatype write_result = Written | ThrowsUnopened | ThrowsTruncated nat

text \<open>\<open>req.file\<close> as multer's memory storage delivers it.\<close>

record upload_file =
  originalname :: string
  buffer :: bytes

text \<open>
  The outcomes that are not a 200 response: the 400 of the upload route, the 404 and the
  500 of the download route, and an exception of \<open>fs.writeFileSync\<close> that leaves the
  upload handler (Express turns it into a 500 through the error handler).
\<close>

datatype error = NoFileProvided | UnknownFilename | FailedToReconstruct | Thrown path

text \<open>
  The \<open>message\<close> field of the upload response has two values:
  \<open>NewChunksWritten\<close> for 'Upload stored (new chunks written)' and
  \<open>DuplicateContent\<close> for 'Duplicate content - no chunk rewrite needed'.
\<close>

datatype message = NewChunksWritten | DuplicateContent

record upload_response =
  message :: message
  filename :: string
  chunkCount :: nat

section \<open>Helpers\<close>

text \<open>\<open>buf.slice(start, end)\<close> for \<open>0 \<le> start \<le> end\<close>; the end is clamped to the length.\<close>

definition slice :: "'a list \<Rightarrow> nat \<Rightarrow> nat \<Rightarrow> 'a list" where
  "slice buf start end = take (end - start) (drop start buf)"

text \<open>\<open>digest('hex')\<close>: the 64 hexadecimal digits of the 256-bit digest, most significant first.\<close>

definition hexchar :: "nat \<Rightarrow> char" where
  "hexchar n = ''0123456789abcdef'' ! n"

fun hex_of_nat :: "nat \<Rightarrow> nat \<Rightarrow> string" where
  "hex_of_nat 0 n = []"
| "hex_of_nat (Suc k) n = hex_of_nat k (n div 16) @ [hexchar (n mod 16)]"

definition hexdigest :: "256 word \<Rightarrow> string" where
  "hexdigest w = hex_of_nat 64 (unat w)"

text \<open>\<^verbatim>\<open>crypto.createHash('sha256').update(slice).digest('hex')\<close>\<close>

definition sha256_hex :: "sha256 \<Rightarrow> bytes \<Rightarrow> string" where
  "sha256_hex H d = hexdigest (H d)"

text \<open>
  The loop of \<open>chunkAndHash\<close>, with the chunk size as a parameter \<open>S\<close>. With \<open>S = 0\<close> and a
  non-empty buffer the source's loop never advances: the model returns \<open>None\<close> for a
  computation that does not return.
\<close>

function chunk_loop :: "sha256 \<Rightarrow> nat \<Rightarrow> bytes \<Rightarrow> nat \<Rightarrow> chunk list \<Rightarrow> chunk list option" where
  "chunk_loop H S buf off out =
     (if off < length buf then
        (if S = 0 then None
         else chunk_loop H S buf (off + S)
                (out @ [\<lparr>hash = sha256_hex H (slice buf off (off + S)),
                         data = slice buf off (off + S)\<rparr>]))
      else Some out)"
  by pat_completeness auto
termination
  by (relation "measure (\<lambda>(H, S, buf, off, out). length buf - off)") auto

declare chunk_loop.simps [simp del]

definition chunkAndHash :: "sha256 \<Rightarrow> nat \<Rightarrow> bytes \<Rightarrow> chunk list option" where
  "chunkAndHash H S buf = chunk_loop H S buf 0 []"

text \<open>
  \<open>path.basename\<close> of Node on POSIX, without a suffix argument: trailing slashes are
  dropped, and what follows the last remaining slash is returned.
\<close>

definition basename :: "string \<Rightarrow> string" where
  "basename p =
     rev (takeWhile (\<lambda>c. c \<noteq> CHR ''/'') (dropWhile (\<lambda>c. c = CHR ''/'') (rev p)))"

definition safeName :: "string \<Rightarrow> string" where
  "safeName name = basename name"

text \<open>\<open>Array.prototype.join\<close> on an array of strings.\<close>

fun join :: "string list \<Rightarrow> string \<Rightarrow> string" where
  "join [] sep = []"
| "join [x] sep = x"
| "join (x # y # ys) sep = x @ sep @ join (y # ys) sep"

text \<open>\<open>String.prototype.endsWith\<close>.\<close>

definition endsWith :: "string \<Rightarrow> string \<Rightarrow> bool" where
  "endsWith s suf = (take (length suf) (rev s) = rev suf)"

text \<open>
  \<open>saveManifest\<close>. \<open>outcome p\<close> is what \<open>fs.writeFileSync\<close> does on path \<open>p\<close> during this
  request. A write of the manifest that throws after the file was opened is taken to
  have been cut short: what it leaves is a proper prefix of the JSON text, which does
  not parse.
\<close>

definition saveManifest ::
  "(path \<Rightarrow> write_result) \<Rightarrow> string \<Rightarrow> string \<Rightarrow> string list \<Rightarrow> state
     \<Rightarrow> (error + unit) \<times> state" where
  "saveManifest outcome fname sig hs s =
     (let fn = fname @ ''.json'' in
      case outcome (ManifestPath fn) of
        Written \<Rightarrow>
          (Inr (), s\<lparr>manifestDir := (manifestDir s)(fn \<mapsto> ManifestJson fname sig hs)\<rparr>)
      | ThrowsUnopened \<Rightarrow> (Inl (Thrown (ManifestPath fn)), s)
      | ThrowsTruncated n \<Rightarrow>
          (Inl (Thrown (ManifestPath fn)),
           s\<lparr>manifestDir := (manifestDir s)(fn \<mapsto> Garbled)\<rparr>))"

section \<open>POST /upload\<close>

text \<open>
  Step 5a, the \<open>forEach\<close> over the chunks: a chunk whose file exists is skipped, any
  other is written and \<open>wroteSomething\<close> is set. An exception stops the loop; the write
  that threw may have left the first bytes of the chunk under the chunk's name.
\<close>

fun write_chunks ::
  "(path \<Rightarrow> write_result) \<Rightarrow> chunk list \<Rightarrow> bool \<Rightarrow> state \<Rightarrow> (error + bool) \<times> state" where
  "write_chunks outcome [] wrote s = (Inr wrote, s)"
| "write_chunks outcome (c # cs) wrote s =
     (let p = hash c @ ''.chunk'' in
      if chunksDir s p \<noteq> None then write_chunks outcome cs wrote s
      else case outcome (ChunkPath p) of
             Written \<Rightarrow>
               write_chunks outcome cs True (s\<lparr>chunksDir := (chunksDir s)(p \<mapsto> data c)\<rparr>)
           | ThrowsUnopened \<Rightarrow> (Inl (Thrown (ChunkPath p)), s)
           | ThrowsTruncated n \<Rightarrow>
               (Inl (Thrown (ChunkPath p)),
                s\<lparr>chunksDir := (chunksDir s)(p \<mapsto> take n (data c))\<rparr>))"

definition write_new_chunks ::
  "(path \<Rightarrow> write_result) \<Rightarrow> chunk list \<Rightarrow> string \<Rightarrow> state
     \<Rightarrow> (error + bool) \<times> state" where
  "write_new_chunks outcome chunks sig s =
     (if sig \<notin> fileSignatures s then
        (case write_chunks outcome chunks False s of
           (Inl e, s1) \<Rightarrow> (Inl e, s1)
         | (Inr wrote, s1) \<Rightarrow> (Inr wrote, s1\<lparr>fileSignatures := insert sig (fileSignatures s1)\<rparr>))
      else (Inr False, s))"

text \<open>
  The handler's local \<open>originalName\<close>:
  \<^verbatim>\<open>safeName(req.file.originalname || 'unnamed')\<close>. An empty name is falsy.
\<close>

definition originalName :: "upload_file \<Rightarrow> string" where
  "originalName file =
     safeName (if originalname file = [] then ''unnamed'' else originalname file)"

text \<open>
  The handler. \<open>req\<close> is \<open>req.file\<close>, \<open>None\<close> when multer found no file in the field.
  The result is \<open>None\<close> only when \<open>chunkAndHash\<close> does not return.
\<close>

definition upload ::
  "sha256 \<Rightarrow> nat \<Rightarrow> (path \<Rightarrow> write_result) \<Rightarrow> upload_file option \<Rightarrow> state
     \<Rightarrow> ((error + upload_response) \<times> state) option" where
  "upload H S outcome req s =
     (case req of
        None \<Rightarrow> Some (Inl NoFileProvided, s)
      | Some file \<Rightarrow>
          (case chunkAndHash H S (buffer file) of
             None \<Rightarrow> None
           | Some chunks \<Rightarrow>
               (let name = originalName file;
                    hashes = map hash chunks;
                    sig = join hashes ''-''
                in case write_new_chunks outcome chunks sig s of
                     (Inl e, s1) \<Rightarrow> Some (Inl e, s1)
                   | (Inr wroteSomething, s1) \<Rightarrow>
                       (let s2 = s1\<lparr>fileMeta := (fileMeta s1)
                                    (name \<mapsto> \<lparr>signature = sig, chunkHashes = hashes\<rparr>)\<rparr>
                        in case saveManifest outcome name sig hashes s2 of
                             (Inl e, s3) \<Rightarrow> Some (Inl e, s3)
                           | (Inr u, s3) \<Rightarrow>
                               Some (Inr \<lparr>message = (if wroteSomething then NewChunksWritten
                                                     else DuplicateContent),
                                          filename = name,
                                          chunkCount = length hashes\<rparr>, s3)))))"

section \<open>GET /download/:filename and GET /list\<close>

text \<open>
  The \<open>map\<close> over \<open>meta.chunkHashes\<close>: the first missing chunk file throws, which the
  handler catches. A chunk file that exists is taken to be readable.
\<close>

fun read_chunks :: "state \<Rightarrow> string list \<Rightarrow> bytes list option" where
  "read_chunks s [] = Some []"
| "read_chunks s (h # hs) =
     (case chunksDir s (h @ ''.chunk'') of
        None \<Rightarrow> None
      | Some d \<Rightarrow> (case read_chunks s hs of None \<Rightarrow> None | Some ds \<Rightarrow> Some (d # ds)))"

text \<open>The handler; the value sent is the body (\<open>Buffer.concat(buffers)\<close>).\<close>

definition download :: "string \<Rightarrow> state \<Rightarrow> (error + bytes) \<times> state" where
  "download fname s =
     (let name = safeName fname in
      case fileMeta s name of
        None \<Rightarrow> (Inl UnknownFilename, s)
      | Some m \<Rightarrow>
          (case read_chunks s (chunkHashes m) of
             None \<Rightarrow> (Inl FailedToReconstruct, s)
           | Some buffers \<Rightarrow> (Inr (concat buffers), s)))"

text \<open>\<^verbatim>\<open>[...fileMeta.keys()]\<close>, as the set of its elements.\<close>

definition list_filenames :: "state \<Rightarrow> string set" where
  "list_filenames s = dom (fileMeta s)"

section \<open>Bootstrap\<close>

text \<open>The body of the \<open>forEach\<close> over \<open>fs.readdirSync(manifestDir)\<close>.\<close>

definition bootstrap_file :: "state \<Rightarrow> string \<Rightarrow> state" where
  "bootstrap_file s file =
     (if \<not> endsWith file ''.json'' then s
      else case manifestDir s file of
             Some (ManifestJson fname sig hs) \<Rightarrow>
               s\<lparr>fileMeta := (fileMeta s)(fname \<mapsto> \<lparr>signature = sig, chunkHashes = hs\<rparr>),
                 fileSignatures := insert sig (fileSignatures s)\<rparr>
           | _ \<Rightarrow> s)"

text \<open>\<open>listing\<close> is what \<open>fs.readdirSync(manifestDir)\<close> returns, in its order.\<close>

definition bootstrap :: "string list \<Rightarrow> state \<Rightarrow> state" where
  "bootstrap listing s = foldl bootstrap_file s listing"

text \<open>A new process over the same disk: both indexes start empty.\<close>

definition restart :: "state \<Rightarrow> state" where
  "restart s = s\<lparr>fileMeta := Map.empty, fileSignatures := {}\<rparr>"

definition init_state :: state where
  "init_state = \<lparr>chunksDir = Map.empty, manifestDir = Map.empty,
                 fileMeta = Map.empty, fileSignatures = {}\<rparr>"

section \<open>Reachable states\<close>

text \<open>
  The states a server reaches from an empty installation, by uploads whose writes
  behave as one of \<open>F\<close>, and by restarts. Downloads change nothing.
\<close>

inductive reachable :: "sha256 \<Rightarrow> nat \<Rightarrow> (path \<Rightarrow> write_result) set \<Rightarrow> state \<Rightarrow> bool"
  for H :: sha256 and S :: nat and F :: "(path \<Rightarrow> write_result) set" where
  init: "reachable H S F init_state"
| upload: "reachable H S F s \<Longrightarrow> outcome \<in> F \<Longrightarrow> upload H S outcome req s = Some (r, s')
             \<Longrightarrow> reachable H S F s'"
| restart: "reachable H S F s \<Longrightarrow> set listing = dom (manifestDir s)
             \<Longrightarrow> reachable H S F (bootstrap listing (restart s))"

section \<open>The chunker of the specification, examples and invariants\<close>

text \<open>
  The chunker as the specification words it: \<open>\<lceil>L / S\<rceil>\<close> slices taken at the offsets
  \<open>0, S, 2S, \<dots>\<close>, each with its digest. The loop of \<open>chunkAndHash\<close> is compared with it.
\<close>

definition chunks_spec :: "sha256 \<Rightarrow> nat \<Rightarrow> bytes \<Rightarrow> chunk list" where
  "chunks_spec H S buf =
     map (\<lambda>i. \<lparr>hash = sha256_hex H (take S (drop (i * S) buf)), data = take S (drop (i * S) buf)\<rparr>)
         [0..<(length buf + S - 1) div S]"

text \<open>A stand-in for SHA-256 on short buffers, for the concrete examples.\<close>

definition test_sha :: sha256 where
  "test_sha d = word_of_nat (foldl (\<lambda>a b. 256 * a + unat b) 1 d)"

text \<open>A 25-byte buffer for the concrete scenario.\<close>

definition example_buf :: bytes where
  "example_buf = [1, 2, 3, 4, 5, 6, 7, 8, 9, 10, 11, 12, 13, 14, 15, 16, 17, 18, 19, 20,
                  21, 22, 23, 24, 25]"

text \<open>An upload of the 25-byte buffer, and the server state after it (chunk size 10).\<close>

definition example_file :: upload_file where
  "example_file = \<lparr>originalname = ''a.bin'', buffer = example_buf\<rparr>"

definition stored_example :: state where
  "stored_example =
     (case upload test_sha 10 (\<lambda>p. Written) (Some example_file) init_state of
        Some (r, s) \<Rightarrow> s
      | None \<Rightarrow> init_state)"






text \<open>No key of \<open>fileMeta\<close> and no filename in a manifest contains a slash.\<close>

definition names_sanitised :: "state \<Rightarrow> bool" where
  "names_sanitised s \<longleftrightarrow>
     (\<forall>k\<in>dom (fileMeta s). CHR ''/'' \<notin> set k) \<and>
     (\<forall>p f sig hs. manifestDir s p = Some (ManifestJson f sig hs) \<longrightarrow> CHR ''/'' \<notin> set f)"

text \<open>
  The manifest directory holds exactly the entries of \<open>fileMeta\<close>: the entry of \<open>f\<close> in
  the file \<open>f.json\<close>, and no other file.
\<close>

definition manifests_match :: "state \<Rightarrow> bool" where
  "manifests_match s \<longleftrightarrow>
     (\<forall>f sig hs. fileMeta s f = Some \<lparr>signature = sig, chunkHashes = hs\<rparr> \<longleftrightarrow>
                 manifestDir s (f @ ''.json'') = Some (ManifestJson f sig hs)) \<and>
     (\<forall>p x. manifestDir s p = Some x \<longrightarrow>
            (\<exists>f sig hs. p = f @ ''.json'' \<and> x = ManifestJson f sig hs))"

section \<open>The chunker\<close>

lemma ceil_step:
  fixes n off S :: nat
  assumes "off < n" "0 < S"
  shows "(n - off + S - 1) div S = Suc ((n - (off + S) + S - 1) div S)"
proof (cases "off + S \<le> n")
  case True
  define m where "m = n - (off + S) + S - 1"
  have "n - off + S - 1 = m + S"
    unfolding m_def using True assms by arith
  moreover have "(m + S) div S = Suc (m div S)"
    using assms(2) div_add_self2 [of S m] by simp
  ultimately show ?thesis
    unfolding m_def by simp
next
  case False
  then have a: "n - (off + S) = 0" by arith
  have "S \<le> n - off + S - 1" "n - off + S - 1 < 2 * S"
    using assms False by arith+
  then have "(n - off + S - 1) div S = 1"
    using assms(2) by (intro div_nat_eqI) simp_all
  moreover have "(n - (off + S) + S - 1) div S = 0"
    unfolding a using assms(2) by simp
  ultimately show ?thesis by simp
qed

lemma chunk_loop_closed:
  assumes "0 < S"
  shows "chunk_loop H S buf off out =
     Some (out @ map (\<lambda>i. \<lparr>hash = sha256_hex H (slice buf (off + i * S) (off + i * S + S)),
                            data = slice buf (off + i * S) (off + i * S + S)\<rparr>)
                     [0..<(length buf - off + S - 1) div S])"
  using assms
proof (induction H S buf off out rule: chunk_loop.induct)
  case (1 H S buf off out)
  show ?case
  proof (cases "off < length buf")
    case True
    have k: "(length buf - off + S - 1) div S = Suc ((length buf - (off + S) + S - 1) div S)"
      using True "1.prems" by (rule ceil_step)
    have "chunk_loop H S buf off out = chunk_loop H S buf (off + S)
                (out @ [\<lparr>hash = sha256_hex H (slice buf off (off + S)),
                         data = slice buf off (off + S)\<rparr>])"
      using True "1.prems" by (subst chunk_loop.simps) simp
    also have "\<dots> = Some ((out @ [\<lparr>hash = sha256_hex H (slice buf off (off + S)),
                         data = slice buf off (off + S)\<rparr>]) @
        map (\<lambda>i. \<lparr>hash = sha256_hex H (slice buf (off + S + i * S) (off + S + i * S + S)),
                            data = slice buf (off + S + i * S) (off + S + i * S + S)\<rparr>)
                     [0..<(length buf - (off + S) + S - 1) div S])"
      using True "1.prems" by (intro "1.IH") simp_all
    finally show ?thesis
      unfolding k by (simp add: map_upt_Suc add.assoc del: upt_Suc)
  next
    case False
    then have "(length buf - off + S - 1) div S = 0"
      using "1.prems" by simp
    then show ?thesis using False by (subst chunk_loop.simps) simp
  qed
qed

lemma chunkAndHash_closed: "0 < S \<Longrightarrow> chunkAndHash H S buf = Some (chunks_spec H S buf)"
  by (simp add: chunkAndHash_def chunk_loop_closed chunks_spec_def slice_def)

lemma length_chunks_spec: "length (chunks_spec H S buf) = (length buf + S - 1) div S"
  by (simp add: chunks_spec_def)

lemma hash_chunks_spec: "c \<in> set (chunks_spec H S buf) \<Longrightarrow> hash c = sha256_hex H (data c)"
  by (auto simp: chunks_spec_def)

lemma data_chunks_spec:
  "i < length (chunks_spec H S buf) \<Longrightarrow> data (chunks_spec H S buf ! i) = take S (drop (i * S) buf)"
  by (simp add: chunks_spec_def)

lemma concat_take_drop: "concat (map (\<lambda>i. take S (drop (i * S) xs)) [0..<k]) = take (k * S) xs"
proof (induction k)
  case 0
  then show ?case by simp
next
  case (Suc k)
  have "take (k * S + S) xs = take (k * S) xs @ take S (drop (k * S) xs)"
    by (rule take_add)
  moreover have "Suc k * S = k * S + S" by simp
  ultimately show ?case using Suc by (simp del: mult_Suc)
qed

lemma ceil_covers:
  fixes L S :: nat
  assumes "0 < S"
  shows "L \<le> ((L + S - 1) div S) * S"
proof -
  have "(L + S - 1) mod S < S" using assms by simp
  moreover have "(L + S - 1) div S * S + (L + S - 1) mod S = L + S - 1" by simp
  ultimately show ?thesis by linarith
qed

lemma concat_chunks_spec:
  assumes "0 < S"
  shows "concat (map data (chunks_spec H S buf)) = buf"
proof -
  have "concat (map data (chunks_spec H S buf)) = take ((length buf + S - 1) div S * S) buf"
    by (simp add: chunks_spec_def comp_def concat_take_drop)
  then show ?thesis using ceil_covers [OF assms, of "length buf"] by simp
qed

lemma full_chunk_length:
  assumes "0 < S" "Suc i < length (chunks_spec H S buf)"
  shows "length (data (chunks_spec H S buf ! i)) = S"
proof -
  have "Suc i < (length buf + S - 1) div S"
    using assms(2) by (simp add: length_chunks_spec)
  then have "Suc (Suc i) \<le> (length buf + S - 1) div S" by simp
  then have "Suc (Suc i) * S \<le> length buf + S - 1"
    using assms(1) by (simp only: less_eq_div_iff_mult_less_eq)
  then have "i * S + S \<le> length buf" using assms(1) by simp
  then show ?thesis using assms by (simp add: data_chunks_spec)
qed

lemma last_chunk_length:
  assumes "0 < S" "buf \<noteq> []"
  shows "chunks_spec H S buf \<noteq> []"
    and "0 < length (data (last (chunks_spec H S buf)))"
    and "length (data (last (chunks_spec H S buf))) \<le> S"
    and "length (data (last (chunks_spec H S buf))) =
           length buf - (length (chunks_spec H S buf) - 1) * S"
proof -
  let ?k = "(length buf + S - 1) div S"
  have L: "0 < length buf" using assms(2) by simp
  then have "S \<le> length buf + S - 1" by arith
  then have "0 < ?k" using assms(1) by (simp add: div_greater_zero_iff)
  then obtain j where j: "?k = Suc j" by (cases ?k) simp_all
  have len: "length (chunks_spec H S buf) = Suc j"
    using j by (simp add: length_chunks_spec)
  show ne: "chunks_spec H S buf \<noteq> []"
    using len by auto
  have "?k * S \<le> length buf + S - 1" by simp
  then have "j * S + S \<le> length buf + S - 1" unfolding j by simp
  then have lt: "j * S < length buf" using L by linarith
  have "length buf \<le> ?k * S" using assms(1) by (rule ceil_covers)
  then have le: "length buf \<le> j * S + S" unfolding j by simp
  have "last (chunks_spec H S buf) = chunks_spec H S buf ! j"
    using ne len by (simp add: last_conv_nth)
  moreover have "data (chunks_spec H S buf ! j) = take S (drop (j * S) buf)"
    using len by (simp add: data_chunks_spec)
  ultimately have d: "data (last (chunks_spec H S buf)) = take S (drop (j * S) buf)"
    by simp
  show "0 < length (data (last (chunks_spec H S buf)))"
    unfolding d using lt assms(1) by simp
  show "length (data (last (chunks_spec H S buf))) \<le> S"
    unfolding d by simp
  show "length (data (last (chunks_spec H S buf))) =
           length buf - (length (chunks_spec H S buf) - 1) * S"
    unfolding d len using le by simp
qed

section \<open>The chunk-writing loop\<close>

lemma write_chunks_Cons_cases:
  assumes "write_chunks outcome (c # cs) wrote s = (r, s')"
  obtains (skipped) "chunksDir s (hash c @ ''.chunk'') \<noteq> None"
      "write_chunks outcome cs wrote s = (r, s')"
  | (written) "chunksDir s (hash c @ ''.chunk'') = None"
      "outcome (ChunkPath (hash c @ ''.chunk'')) = Written"
      "write_chunks outcome cs True
         (s\<lparr>chunksDir := (chunksDir s)(hash c @ ''.chunk'' \<mapsto> data c)\<rparr>) = (r, s')"
  | (unopened) "chunksDir s (hash c @ ''.chunk'') = None"
      "outcome (ChunkPath (hash c @ ''.chunk'')) = ThrowsUnopened"
      "r = Inl (Thrown (ChunkPath (hash c @ ''.chunk'')))" "s' = s"
  | (truncated) n where "chunksDir s (hash c @ ''.chunk'') = None"
      "outcome (ChunkPath (hash c @ ''.chunk'')) = ThrowsTruncated n"
      "r = Inl (Thrown (ChunkPath (hash c @ ''.chunk'')))"
      "s' = s\<lparr>chunksDir := (chunksDir s)(hash c @ ''.chunk'' \<mapsto> take n (data c))\<rparr>"
proof (cases "chunksDir s (hash c @ ''.chunk'') \<noteq> None")
  case True
  with assms show ?thesis by (intro skipped) simp_all
next
  case absent: False
  show ?thesis
  proof (cases "outcome (ChunkPath (hash c @ ''.chunk''))")
    case Written
    with absent assms show ?thesis by (intro written) (simp_all add: Let_def)
  next
    case ThrowsUnopened
    with absent assms show ?thesis by (intro unopened) (simp_all add: Let_def)
  next
    case (ThrowsTruncated n)
    with absent assms show ?thesis by (intro truncated [of n]) (simp_all add: Let_def)
  qed
qed

lemma map_le_upd_absent: "m k = None \<Longrightarrow> m \<subseteq>\<^sub>m m(k \<mapsto> v)"
  by (auto simp: map_le_def)

lemma write_chunks_frame:
  "write_chunks outcome cs wrote s = (r, s') \<Longrightarrow>
     fileMeta s' = fileMeta s \<and> manifestDir s' = manifestDir s \<and>
     fileSignatures s' = fileSignatures s \<and> chunksDir s \<subseteq>\<^sub>m chunksDir s'"
proof (induction cs arbitrary: wrote s)
  case Nil
  then show ?case by simp
next
  case (Cons c cs)
  from Cons.prems show ?case
  proof (cases rule: write_chunks_Cons_cases)
    case skipped
    from skipped(2) show ?thesis by (rule Cons.IH)
  next
    case written
    let ?s1 = "s\<lparr>chunksDir := (chunksDir s)(hash c @ ''.chunk'' \<mapsto> data c)\<rparr>"
    from written(3) have "fileMeta s' = fileMeta ?s1 \<and> manifestDir s' = manifestDir ?s1 \<and>
         fileSignatures s' = fileSignatures ?s1 \<and> chunksDir ?s1 \<subseteq>\<^sub>m chunksDir s'"
      by (rule Cons.IH)
    moreover have "chunksDir s \<subseteq>\<^sub>m chunksDir ?s1"
      using map_le_upd_absent [of "chunksDir s" "hash c @ ''.chunk''", OF written(1)] by simp
    ultimately show ?thesis by (auto intro: map_le_trans)
  next
    case unopened
    then show ?thesis by simp
  next
    case (truncated n)
    then show ?thesis by (auto simp: map_le_def)
  qed
qed

text \<open>
  A chunk file found after the loop was there before, or holds a chunk of the upload,
  or holds the first bytes of the chunk whose write threw.
\<close>

lemma write_chunks_new_blobs:
  "write_chunks outcome cs wrote s = (r, s') \<Longrightarrow> chunksDir s' p = Some d \<Longrightarrow>
     chunksDir s p = Some d \<or>
     (\<exists>c\<in>set cs. p = hash c @ ''.chunk'' \<and>
        (d = data c \<or>
         (\<exists>n e. outcome (ChunkPath p) = ThrowsTruncated n \<and> d = take n (data c) \<and> r = Inl e)))"
proof (induction cs arbitrary: wrote s)
  case Nil
  then show ?case by simp
next
  case (Cons c cs)
  from Cons.prems(1) show ?case
  proof (cases rule: write_chunks_Cons_cases)
    case skipped
    from Cons.IH [OF skipped(2) Cons.prems(2)] show ?thesis by auto
  next
    case written
    from Cons.IH [OF written(3) Cons.prems(2)] show ?thesis
      by (auto split: if_splits)
  next
    case unopened
    with Cons.prems(2) show ?thesis by simp
  next
    case (truncated n)
    with Cons.prems(2) show ?thesis by (auto split: if_splits)
  qed
qed

lemma write_chunks_new_blobs_Inr:
  assumes "write_chunks outcome cs wrote s = (Inr w, s')" "chunksDir s' p = Some d"
  shows "chunksDir s p = Some d \<or> (\<exists>c\<in>set cs. p = hash c @ ''.chunk'' \<and> d = data c)"
  using write_chunks_new_blobs [OF assms] by auto

lemma write_chunks_new_blobs_whole:
  assumes "write_chunks outcome cs wrote s = (r, s')" "chunksDir s' p = Some d"
    and "\<And>q n. outcome (ChunkPath q) \<noteq> ThrowsTruncated n"
  shows "chunksDir s p = Some d \<or> (\<exists>c\<in>set cs. p = hash c @ ''.chunk'' \<and> d = data c)"
  using write_chunks_new_blobs [OF assms(1,2)] assms(3) by auto

lemma write_chunks_all_present:
  "write_chunks outcome cs wrote s = (Inr w, s') \<Longrightarrow> c \<in> set cs \<Longrightarrow>
     chunksDir s' (hash c @ ''.chunk'') \<noteq> None"
proof (induction cs arbitrary: wrote s)
  case Nil
  then show ?case by simp
next
  case (Cons a cs)
  let ?p = "hash a @ ''.chunk''"
  from Cons.prems(1) obtain wr s1 where step: "write_chunks outcome cs wr s1 = (Inr w, s')"
    and here: "chunksDir s1 ?p \<noteq> None"
  proof (cases rule: write_chunks_Cons_cases)
    case skipped
    then show ?thesis by (intro that [of wrote s]) simp_all
  next
    case written
    then show ?thesis
      by (intro that [of True "s\<lparr>chunksDir := (chunksDir s)(?p \<mapsto> data a)\<rparr>"]) simp_all
  qed simp_all
  show ?case
  proof (cases "c = a")
    case True
    from write_chunks_frame [OF step] have "chunksDir s1 \<subseteq>\<^sub>m chunksDir s'" by simp
    with here show ?thesis unfolding True by (auto simp: map_le_def dom_def)
  next
    case False
    with Cons.prems(2) have "c \<in> set cs" by simp
    with step show ?thesis by (rule Cons.IH)
  qed
qed

lemma write_chunks_wrote:
  "write_chunks outcome cs wrote s = (Inr w, s') \<Longrightarrow>
     w = (wrote \<or> (\<exists>c\<in>set cs. chunksDir s (hash c @ ''.chunk'') = None))"
proof (induction cs arbitrary: wrote s)
  case Nil
  then show ?case by simp
next
  case (Cons a cs)
  from Cons.prems show ?case
  proof (cases rule: write_chunks_Cons_cases)
    case skipped
    from Cons.IH [OF skipped(2)] skipped(1) show ?thesis by auto
  next
    case written
    from Cons.IH [OF written(3)] written(1) show ?thesis by auto
  qed simp_all
qed

text \<open>The loop throws exactly when the write of a missing chunk file does.\<close>

lemma write_chunks_fails_iff:
  "(\<exists>e. fst (write_chunks outcome cs wrote s) = Inl e) \<longleftrightarrow>
     (\<exists>c\<in>set cs. chunksDir s (hash c @ ''.chunk'') = None \<and>
                  outcome (ChunkPath (hash c @ ''.chunk'')) \<noteq> Written)"
proof (induction cs arbitrary: wrote s)
  case Nil
  then show ?case by simp
next
  case (Cons a cs)
  let ?p = "hash a @ ''.chunk''"
  let ?Q = "\<lambda>t c. chunksDir t (hash c @ ''.chunk'') = None \<and>
                  outcome (ChunkPath (hash c @ ''.chunk'')) \<noteq> Written"
  show ?case
  proof (cases "chunksDir s ?p \<noteq> None")
    case True
    then show ?thesis using Cons.IH [of wrote s] by auto
  next
    case absent: False
    show ?thesis
    proof (cases "outcome (ChunkPath ?p) = Written")
      case False
      with absent have "\<exists>e. fst (write_chunks outcome (a # cs) wrote s) = Inl e"
        by (cases "outcome (ChunkPath ?p)") (simp_all add: Let_def)
      moreover from absent False have "\<exists>c\<in>set (a # cs). ?Q s c" by simp
      ultimately show ?thesis by simp
    next
      case True
      let ?s1 = "s\<lparr>chunksDir := (chunksDir s)(?p \<mapsto> data a)\<rparr>"
      have eq: "(\<exists>c\<in>set cs. ?Q ?s1 c) \<longleftrightarrow> (\<exists>c\<in>set cs. ?Q s c)"
      proof
        assume "\<exists>c\<in>set cs. ?Q ?s1 c"
        then obtain c where "c \<in> set cs" "?Q ?s1 c" by blast
        then have "c \<in> set cs \<and> ?Q s c" by (auto split: if_splits)
        then show "\<exists>c\<in>set cs. ?Q s c" by blast
      next
        assume "\<exists>c\<in>set cs. ?Q s c"
        then obtain c where c: "c \<in> set cs" "?Q s c" by blast
        then have "hash c \<noteq> hash a" using True by auto
        with c have "c \<in> set cs \<and> ?Q ?s1 c" by simp
        then show "\<exists>c\<in>set cs. ?Q ?s1 c" by blast
      qed
      have step: "write_chunks outcome (a # cs) wrote s = write_chunks outcome cs True ?s1"
        using absent True by (simp add: Let_def)
      have rhs: "(\<exists>c\<in>set (a # cs). ?Q s c) \<longleftrightarrow> (\<exists>c\<in>set cs. ?Q s c)"
        using True by auto
      have "(\<exists>e. fst (write_chunks outcome cs True ?s1) = Inl e) \<longleftrightarrow> (\<exists>c\<in>set cs. ?Q ?s1 c)"
        by (rule Cons.IH)
      then show ?thesis unfolding step rhs eq .
    qed
  qed
qed

lemma write_chunks_thrown:
  "write_chunks outcome cs wrote s = (Inl e, s') \<Longrightarrow>
     \<exists>c\<in>set cs. e = Thrown (ChunkPath (hash c @ ''.chunk'')) \<and>
                  outcome (ChunkPath (hash c @ ''.chunk'')) \<noteq> Written"
proof (induction cs arbitrary: wrote s)
  case Nil
  then show ?case by simp
next
  case (Cons a cs)
  from Cons.prems show ?case
  proof (cases rule: write_chunks_Cons_cases)
    case skipped
    from Cons.IH [OF skipped(2)] show ?thesis by auto
  next
    case written
    from Cons.IH [OF written(3)] show ?thesis by auto
  next
    case unopened
    then show ?thesis by simp
  next
    case (truncated n)
    then show ?thesis by simp
  qed
qed

section \<open>The upload handler\<close>

lemma write_new_chunks_Inl:
  "write_new_chunks outcome cs sig s = (Inl e, s1) \<Longrightarrow>
     sig \<notin> fileSignatures s \<and> write_chunks outcome cs False s = (Inl e, s1)"
  by (auto simp: write_new_chunks_def split: if_splits prod.splits sum.splits)

lemma write_new_chunks_known:
  "sig \<in> fileSignatures s \<Longrightarrow> write_new_chunks outcome cs sig s = (Inr False, s)"
  by (simp add: write_new_chunks_def)

lemma write_new_chunks_unknown:
  assumes "sig \<notin> fileSignatures s" "write_new_chunks outcome cs sig s = (Inr w, s1)"
  obtains s0 where "write_chunks outcome cs False s = (Inr w, s0)"
    and "s1 = s0\<lparr>fileSignatures := insert sig (fileSignatures s0)\<rparr>"
proof -
  obtain x s0 where x: "write_chunks outcome cs False s = (x, s0)"
    by (cases "write_chunks outcome cs False s")
  with assms have "x = Inr w \<and> s1 = s0\<lparr>fileSignatures := insert sig (fileSignatures s0)\<rparr>"
    by (cases x) (simp_all add: write_new_chunks_def)
  with x that show thesis by simp
qed

lemma write_new_chunks_Inr:
  assumes "write_new_chunks outcome cs sig s = (Inr w, s1)"
  shows "fileSignatures s1 = insert sig (fileSignatures s)"
    and "fileMeta s1 = fileMeta s"
    and "manifestDir s1 = manifestDir s"
    and "w = (sig \<notin> fileSignatures s \<and> (\<exists>c\<in>set cs. chunksDir s (hash c @ ''.chunk'') = None))"
    and "sig \<notin> fileSignatures s \<Longrightarrow> c \<in> set cs \<Longrightarrow> chunksDir s1 (hash c @ ''.chunk'') \<noteq> None"
    and "sig \<in> fileSignatures s \<Longrightarrow> chunksDir s1 = chunksDir s"
proof -
  have known: "w = False \<and> s1 = s" if "sig \<in> fileSignatures s"
    using assms write_new_chunks_known [OF that, of outcome cs] by simp
  show "sig \<in> fileSignatures s \<Longrightarrow> chunksDir s1 = chunksDir s"
    using known by simp
  show "sig \<notin> fileSignatures s \<Longrightarrow> c \<in> set cs \<Longrightarrow> chunksDir s1 (hash c @ ''.chunk'') \<noteq> None"
  proof -
    assume a: "sig \<notin> fileSignatures s" "c \<in> set cs"
    from a(1) assms obtain s0 where s0: "write_chunks outcome cs False s = (Inr w, s0)"
      "s1 = s0\<lparr>fileSignatures := insert sig (fileSignatures s0)\<rparr>"
      by (rule write_new_chunks_unknown)
    from write_chunks_all_present [OF s0(1) a(2)] s0(2) show ?thesis by simp
  qed
  show "fileSignatures s1 = insert sig (fileSignatures s)"
  proof (cases "sig \<in> fileSignatures s")
    case True
    with known show ?thesis by auto
  next
    case False
    from False assms obtain s0 where s0: "write_chunks outcome cs False s = (Inr w, s0)"
      "s1 = s0\<lparr>fileSignatures := insert sig (fileSignatures s0)\<rparr>"
      by (rule write_new_chunks_unknown)
    from write_chunks_frame [OF s0(1)] s0(2) show ?thesis by simp
  qed
  show "fileMeta s1 = fileMeta s"
  proof (cases "sig \<in> fileSignatures s")
    case True
    with known show ?thesis by auto
  next
    case False
    from False assms obtain s0 where s0: "write_chunks outcome cs False s = (Inr w, s0)"
      "s1 = s0\<lparr>fileSignatures := insert sig (fileSignatures s0)\<rparr>"
      by (rule write_new_chunks_unknown)
    from write_chunks_frame [OF s0(1)] s0(2) show ?thesis by simp
  qed
  show "manifestDir s1 = manifestDir s"
  proof (cases "sig \<in> fileSignatures s")
    case True
    with known show ?thesis by auto
  next
    case False
    from False assms obtain s0 where s0: "write_chunks outcome cs False s = (Inr w, s0)"
      "s1 = s0\<lparr>fileSignatures := insert sig (fileSignatures s0)\<rparr>"
      by (rule write_new_chunks_unknown)
    from write_chunks_frame [OF s0(1)] s0(2) show ?thesis by simp
  qed
  show "w = (sig \<notin> fileSignatures s \<and> (\<exists>c\<in>set cs. chunksDir s (hash c @ ''.chunk'') = None))"
  proof (cases "sig \<in> fileSignatures s")
    case True
    with known show ?thesis by auto
  next
    case False
    from False assms obtain s0 where s0: "write_chunks outcome cs False s = (Inr w, s0)"
      "s1 = s0\<lparr>fileSignatures := insert sig (fileSignatures s0)\<rparr>"
      by (rule write_new_chunks_unknown)
    from write_chunks_wrote [OF s0(1)] False show ?thesis by simp
  qed
qed

lemma write_new_chunks_frame:
  assumes "write_new_chunks outcome cs sig s = (r, s1)"
  shows "fileMeta s1 = fileMeta s" and "manifestDir s1 = manifestDir s"
    and "chunksDir s \<subseteq>\<^sub>m chunksDir s1" and "fileSignatures s \<subseteq> fileSignatures s1"
proof -
  obtain x s0 where x: "write_chunks outcome cs False s = (x, s0)"
    by (cases "write_chunks outcome cs False s")
  from write_chunks_frame [OF x]
  have fr: "fileMeta s0 = fileMeta s" "manifestDir s0 = manifestDir s"
    "fileSignatures s0 = fileSignatures s" "chunksDir s \<subseteq>\<^sub>m chunksDir s0"
    by simp_all
  have "s1 = s \<or> s1 = s0 \<or> s1 = s0\<lparr>fileSignatures := insert sig (fileSignatures s0)\<rparr>"
    using assms x by (cases x) (simp_all add: write_new_chunks_def split: if_splits)
  then consider "s1 = s" | "s1 = s0"
    | "s1 = s0\<lparr>fileSignatures := insert sig (fileSignatures s0)\<rparr>"
    by blast
  then have "fileMeta s1 = fileMeta s \<and> manifestDir s1 = manifestDir s \<and>
        chunksDir s \<subseteq>\<^sub>m chunksDir s1 \<and> fileSignatures s \<subseteq> fileSignatures s1"
  proof cases
    case 1
    then show ?thesis by simp
  next
    case 2
    with fr show ?thesis by simp
  next
    case 3
    with fr show ?thesis by (simp add: subset_insertI)
  qed
  then show "fileMeta s1 = fileMeta s" and "manifestDir s1 = manifestDir s"
    and "chunksDir s \<subseteq>\<^sub>m chunksDir s1" and "fileSignatures s \<subseteq> fileSignatures s1"
    by simp_all
qed




lemma upload_None: "upload H S outcome None s = Some (Inl NoFileProvided, s)"
  by (simp add: upload_def)

lemma upload_unfold:
  assumes "chunkAndHash H S (buffer file) = Some cs"
    and "write_new_chunks outcome cs (join (map hash cs) ''-'') s = (x, s1)"
  shows "upload H S outcome (Some file) s =
     (case x of
        Inl e \<Rightarrow> Some (Inl e, s1)
      | Inr w \<Rightarrow>
          (case outcome (ManifestPath (originalName file @ ''.json'')) of
             Written \<Rightarrow>
               Some (Inr \<lparr>message = (if w then NewChunksWritten else DuplicateContent),
                          filename = originalName file, chunkCount = length cs\<rparr>,
                  s1\<lparr>fileMeta := (fileMeta s1)(originalName file \<mapsto>
                       \<lparr>signature = join (map hash cs) ''-'', chunkHashes = map hash cs\<rparr>),
                     manifestDir := (manifestDir s1)(originalName file @ ''.json'' \<mapsto>
                       ManifestJson (originalName file) (join (map hash cs) ''-'')
                         (map hash cs))\<rparr>)
           | ThrowsUnopened \<Rightarrow>
               Some (Inl (Thrown (ManifestPath (originalName file @ ''.json''))),
                  s1\<lparr>fileMeta := (fileMeta s1)(originalName file \<mapsto>
                     \<lparr>signature = join (map hash cs) ''-'', chunkHashes = map hash cs\<rparr>)\<rparr>)
           | ThrowsTruncated n \<Rightarrow>
               Some (Inl (Thrown (ManifestPath (originalName file @ ''.json''))),
                  s1\<lparr>fileMeta := (fileMeta s1)(originalName file \<mapsto>
                       \<lparr>signature = join (map hash cs) ''-'', chunkHashes = map hash cs\<rparr>),
                     manifestDir := (manifestDir s1)(originalName file @ ''.json'' \<mapsto>
                       Garbled)\<rparr>)))"
  using assms
  by (simp add: upload_def Let_def saveManifest_def split: sum.splits write_result.splits)

lemma upload_Some_cases:
  assumes "upload H S outcome (Some file) s = Some (r, s')"
  obtains (chunk_write_failed) cs e where
      "chunkAndHash H S (buffer file) = Some cs"
      "write_new_chunks outcome cs (join (map hash cs) ''-'') s = (Inl e, s')"
      "r = Inl e"
  | (manifest_write_failed) cs w s1 where
      "chunkAndHash H S (buffer file) = Some cs"
      "write_new_chunks outcome cs (join (map hash cs) ''-'') s = (Inr w, s1)"
      "outcome (ManifestPath (originalName file @ ''.json'')) \<noteq> Written"
      "r = Inl (Thrown (ManifestPath (originalName file @ ''.json'')))"
      "fileMeta s' = (fileMeta s1)(originalName file \<mapsto>
               \<lparr>signature = join (map hash cs) ''-'', chunkHashes = map hash cs\<rparr>)"
      "chunksDir s' = chunksDir s1"
      "fileSignatures s' = fileSignatures s1"
      "manifestDir s' = manifestDir s1 \<or>
       manifestDir s' = (manifestDir s1)(originalName file @ ''.json'' \<mapsto> Garbled)"
  | (stored) cs w s1 where
      "chunkAndHash H S (buffer file) = Some cs"
      "write_new_chunks outcome cs (join (map hash cs) ''-'') s = (Inr w, s1)"
      "outcome (ManifestPath (originalName file @ ''.json'')) = Written"
      "r = Inr \<lparr>message = (if w then NewChunksWritten else DuplicateContent),
                filename = originalName file, chunkCount = length cs\<rparr>"
      "s' = s1\<lparr>fileMeta := (fileMeta s1)(originalName file \<mapsto>
               \<lparr>signature = join (map hash cs) ''-'', chunkHashes = map hash cs\<rparr>),
             manifestDir := (manifestDir s1)(originalName file @ ''.json'' \<mapsto>
               ManifestJson (originalName file) (join (map hash cs) ''-'') (map hash cs))\<rparr>"
proof -
  from assms obtain cs where cs: "chunkAndHash H S (buffer file) = Some cs"
    by (auto simp: upload_def split: option.splits)
  obtain x s1 where w: "write_new_chunks outcome cs (join (map hash cs) ''-'') s = (x, s1)"
    by (cases "write_new_chunks outcome cs (join (map hash cs) ''-'') s")
  note u = upload_unfold [OF cs w]
  show thesis
  proof (cases x)
    case (Inl e)
    with assms u have "r = Inl e" "s' = s1" by simp_all
    with cs w Inl show thesis by (intro chunk_write_failed) simp_all
  next
    case (Inr wr)
    show thesis
    proof (cases "outcome (ManifestPath (originalName file @ ''.json''))")
      case Written
      with assms u Inr cs w show thesis
        by (intro stored [of cs wr s1]) simp_all
    next
      case ThrowsUnopened
      with assms u Inr cs w show thesis
        by (intro manifest_write_failed [of cs wr s1]) auto
    next
      case (ThrowsTruncated n)
      with assms u Inr cs w show thesis
        by (intro manifest_write_failed [of cs wr s1]) auto
    qed
  qed
qed

lemma upload_total:
  assumes "0 < S"
  shows "\<exists>r s'. upload H S outcome req s = Some (r, s')"
proof (cases req)
  case None
  then show ?thesis by (simp add: upload_def)
next
  case (Some f)
  then show ?thesis
    by (simp add: upload_def Let_def chunkAndHash_closed [OF assms] saveManifest_def
             split: prod.splits sum.splits write_result.splits)
qed

section \<open>Chunk size, chunk shape and the read-only download\<close>

lemma hex_of_nat_numeral:
  "hex_of_nat (numeral k) n = hex_of_nat (pred_numeral k) (n div 16) @ [hexchar (n mod 16)]"
  by (simp only: numeral_eq_Suc [of k] hex_of_nat.simps)

lemmas digest_eval = sha256_hex_def test_sha_def hexdigest_def hexchar_def hex_of_nat_numeral

lemma example_chunks:
  "chunkAndHash test_sha 10 example_buf =
     Some [\<lparr>hash = ''000000000000000000000000000000000000000000010102030405060708090a'',
             data = [1, 2, 3, 4, 5, 6, 7, 8, 9, 10]\<rparr>,
           \<lparr>hash = ''000000000000000000000000000000000000000000010b0c0d0e0f1011121314'',
             data = [11, 12, 13, 14, 15, 16, 17, 18, 19, 20]\<rparr>,
           \<lparr>hash = ''0000000000000000000000000000000000000000000000000000011516171819'',
             data = [21, 22, 23, 24, 25]\<rparr>]"
  by (simp add: chunkAndHash_def chunk_loop.simps slice_def example_buf_def digest_eval)

lemma upload_stored:
  assumes "upload H S outcome (Some file) s = Some (Inr r, s')"
  obtains cs w s1 where
      "chunkAndHash H S (buffer file) = Some cs"
      "write_new_chunks outcome cs (join (map hash cs) ''-'') s = (Inr w, s1)"
      "outcome (ManifestPath (originalName file @ ''.json'')) = Written"
      "r = \<lparr>message = (if w then NewChunksWritten else DuplicateContent),
                filename = originalName file, chunkCount = length cs\<rparr>"
      "s' = s1\<lparr>fileMeta := (fileMeta s1)(originalName file \<mapsto>
               \<lparr>signature = join (map hash cs) ''-'', chunkHashes = map hash cs\<rparr>),
             manifestDir := (manifestDir s1)(originalName file @ ''.json'' \<mapsto>
               ManifestJson (originalName file) (join (map hash cs) ''-'') (map hash cs))\<rparr>"
  using assms by (cases rule: upload_Some_cases) simp_all

lemma upload_no_failure:
  assumes "0 < S"
  obtains r s' where "upload H S (\<lambda>p. Written) (Some file) s = Some (Inr r, s')"
proof -
  from upload_total [OF assms] obtain x s' where
    u: "upload H S (\<lambda>p. Written) (Some file) s = Some (x, s')" by blast
  then show thesis
  proof (cases rule: upload_Some_cases)
    case (chunk_write_failed cs e)
    from write_new_chunks_Inl [OF chunk_write_failed(2)]
    have "\<exists>e. fst (write_chunks (\<lambda>p. Written) cs False s) = Inl e" by simp
    then show ?thesis by (simp only: write_chunks_fails_iff) simp
  next
    case (manifest_write_failed cs w s1)
    then show ?thesis by simp
  next
    case (stored cs w s1)
    with u that show ?thesis by simp
  qed
qed

text \<open>
  C8. The constant is 100 bytes: a 101-byte buffer is cut into two chunks, where the
  documented 1 MiB would give one.
\<close>

theorem chunk_size_constant:
  "CHUNK_SIZE = 100 \<and> CHUNK_SIZE \<noteq> 1024 * 1024 \<and>
   map_option length (chunkAndHash H CHUNK_SIZE (replicate 101 0)) = Some 2 \<and>
   map_option length (chunkAndHash H (1024 * 1024) (replicate 101 0)) = Some 1"
  by (simp add: CHUNK_SIZE_def chunkAndHash_closed length_chunks_spec)

text \<open>
  C10. The download handler only reads: whatever it answers, the directories and the
  two indexes are as before.
\<close>

theorem download_read_only: "snd (download fname s) = s"
  by (simp add: download_def Let_def split: option.splits)

text \<open>
  C6. For a non-empty buffer of length \<open>L\<close> and a chunk size \<open>S > 0\<close>, \<open>chunkAndHash\<close>
  returns \<open>\<lceil>L / S\<rceil>\<close> chunks that concatenate to the buffer, every chunk but the last
  of length \<open>S\<close> and the last of length \<open>1..S\<close>, each with the digest of its bytes. A
  successful upload reports that number as \<open>chunkCount\<close> and files the digests joined
  by \<open>-\<close> as the signature; it reports new chunks exactly when the signature was
  unknown and some chunk file was missing, as in an empty store.
\<close>

theorem chunking_shape:
  assumes "0 < S" and "buf \<noteq> []"
  shows "\<exists>cs. chunkAndHash H S buf = Some cs
          \<and> length cs = (length buf + S - 1) div S
          \<and> concat (map data cs) = buf
          \<and> (\<forall>i. Suc i < length cs \<longrightarrow> length (data (cs ! i)) = S)
          \<and> 0 < length (data (last cs)) \<and> length (data (last cs)) \<le> S
          \<and> (\<forall>c\<in>set cs. hash c = sha256_hex H (data c))
          \<and> (\<forall>outcome fl s r s'.
                buffer fl = buf \<longrightarrow> upload H S outcome (Some fl) s = Some (Inr r, s') \<longrightarrow>
                  chunkCount r = length cs \<and>
                  fileMeta s' (filename r) =
                    Some \<lparr>signature = join (map hash cs) ''-'', chunkHashes = map hash cs\<rparr> \<and>
                  (message r = NewChunksWritten \<longleftrightarrow>
                     join (map hash cs) ''-'' \<notin> fileSignatures s \<and>
                     (\<exists>c\<in>set cs. chunksDir s (hash c @ ''.chunk'') = None)))
          \<and> (\<forall>fl. buffer fl = buf \<longrightarrow>
                (\<exists>s'. upload H S (\<lambda>p. Written) (Some fl) init_state =
                   Some (Inr \<lparr>message = NewChunksWritten, filename = originalName fl,
                              chunkCount = length cs\<rparr>, s')))"
proof -
  let ?cs = "chunks_spec H S buf"
  have c: "chunkAndHash H S buf = Some ?cs"
    using assms(1) by (rule chunkAndHash_closed)
  have ne: "?cs \<noteq> []"
    using assms by (rule last_chunk_length(1))
  have up: "chunkCount r = length ?cs \<and>
        fileMeta s' (filename r) =
          Some \<lparr>signature = join (map hash ?cs) ''-'', chunkHashes = map hash ?cs\<rparr> \<and>
        (message r = NewChunksWritten \<longleftrightarrow>
           join (map hash ?cs) ''-'' \<notin> fileSignatures s \<and>
           (\<exists>c\<in>set ?cs. chunksDir s (hash c @ ''.chunk'') = None))"
    if b: "buffer fl = buf" and u: "upload H S outcome (Some fl) s = Some (Inr r, s')"
    for outcome fl s r s'
  proof -
    from u obtain cs w s1 where st:
      "chunkAndHash H S (buffer fl) = Some cs"
      "write_new_chunks outcome cs (join (map hash cs) ''-'') s = (Inr w, s1)"
      "r = \<lparr>message = (if w then NewChunksWritten else DuplicateContent),
                filename = originalName fl, chunkCount = length cs\<rparr>"
      "s' = s1\<lparr>fileMeta := (fileMeta s1)(originalName fl \<mapsto>
               \<lparr>signature = join (map hash cs) ''-'', chunkHashes = map hash cs\<rparr>),
             manifestDir := (manifestDir s1)(originalName fl @ ''.json'' \<mapsto>
               ManifestJson (originalName fl) (join (map hash cs) ''-'') (map hash cs))\<rparr>"
      by (rule upload_stored)
    from st(1) b c have cs: "cs = ?cs" by simp
    from write_new_chunks_Inr(4) [OF st(2)] st(3,4) show ?thesis
      unfolding cs by simp
  qed
  have fresh: "\<exists>s'. upload H S (\<lambda>p. Written) (Some fl) init_state =
         Some (Inr \<lparr>message = NewChunksWritten, filename = originalName fl,
                    chunkCount = length ?cs\<rparr>, s')"
    if b: "buffer fl = buf" for fl
  proof -
    from assms(1) obtain r s' where
      u: "upload H S (\<lambda>p. Written) (Some fl) init_state = Some (Inr r, s')"
      by (rule upload_no_failure)
    from u obtain cs w s1 where st:
      "chunkAndHash H S (buffer fl) = Some cs"
      "write_new_chunks (\<lambda>p. Written) cs (join (map hash cs) ''-'') init_state = (Inr w, s1)"
      "r = \<lparr>message = (if w then NewChunksWritten else DuplicateContent),
                filename = originalName fl, chunkCount = length cs\<rparr>"
      by (rule upload_stored)
    from st(1) b c have cs: "cs = ?cs" by simp
    from write_new_chunks_Inr(4) [OF st(2)] ne have "w"
      unfolding cs by (cases ?cs) (auto simp: init_state_def)
    with st(3) u show ?thesis unfolding cs by simp
  qed
  show ?thesis
  proof (intro exI [of _ ?cs] conjI allI impI ballI)
    show "chunkAndHash H S buf = Some ?cs" by (rule c)
    show "length ?cs = (length buf + S - 1) div S" by (rule length_chunks_spec)
    show "concat (map data ?cs) = buf" using assms(1) by (rule concat_chunks_spec)
    show "length (data (?cs ! i)) = S" if "Suc i < length ?cs" for i
      using assms(1) that by (rule full_chunk_length)
    show "0 < length (data (last ?cs))" using assms by (rule last_chunk_length(2))
    show "length (data (last ?cs)) \<le> S" using assms by (rule last_chunk_length(3))
    show "hash x = sha256_hex H (data x)" if "x \<in> set ?cs" for x
      using that by (rule hash_chunks_spec)
  next
    fix outcome fl s r s'
    assume "buffer fl = buf" "upload H S outcome (Some fl) s = Some (Inr r, s')"
    then show "chunkCount r = length ?cs" using up by blast
  next
    fix outcome fl s r s'
    assume "buffer fl = buf" "upload H S outcome (Some fl) s = Some (Inr r, s')"
    then show "fileMeta s' (filename r) =
          Some \<lparr>signature = join (map hash ?cs) ''-'', chunkHashes = map hash ?cs\<rparr>"
      using up by blast
  next
    fix outcome fl s r s'
    assume "buffer fl = buf" "upload H S outcome (Some fl) s = Some (Inr r, s')"
    then show "message r = NewChunksWritten \<longleftrightarrow>
           join (map hash ?cs) ''-'' \<notin> fileSignatures s \<and>
           (\<exists>c\<in>set ?cs. chunksDir s (hash c @ ''.chunk'') = None)"
      using up by blast
  next
    fix fl :: upload_file
    assume "buffer fl = buf"
    then show "\<exists>s'. upload H S (\<lambda>p. Written) (Some fl) init_state =
         Some (Inr \<lparr>message = NewChunksWritten, filename = originalName fl,
                    chunkCount = length ?cs\<rparr>, s')"
      by (rule fresh)
  qed
qed

theorem chunking_shape_witness:
  "0 < (10::nat) \<and> example_buf \<noteq> [] \<and>
   (\<exists>cs. chunkAndHash test_sha 10 example_buf = Some cs \<and> length cs = 3 \<and>
      map (\<lambda>c. length (data c)) cs = [10, 10, 5] \<and> concat (map data cs) = example_buf \<and>
      join (map hash cs) ''-'' =
        ''000000000000000000000000000000000000000000010102030405060708090a-000000000000000000000000000000000000000000010b0c0d0e0f1011121314-0000000000000000000000000000000000000000000000000000011516171819'' \<and>
      (\<exists>s'. upload test_sha 10 (\<lambda>p. Written)
               (Some \<lparr>originalname = ''a.bin'', buffer = example_buf\<rparr>) init_state =
             Some (Inr \<lparr>message = NewChunksWritten, filename = ''a.bin'', chunkCount = 3\<rparr>, s')))"
proof -
  have pos: "0 < (10::nat)" by simp
  have ne: "example_buf \<noteq> []" by (simp add: example_buf_def)
  from chunking_shape [OF pos ne, of test_sha]
  have "\<exists>cs. chunkAndHash test_sha 10 example_buf = Some cs
          \<and> length cs = (length example_buf + 10 - 1) div 10
          \<and> concat (map data cs) = example_buf
          \<and> (\<forall>fl. buffer fl = example_buf \<longrightarrow>
                (\<exists>s'. upload test_sha 10 (\<lambda>p. Written) (Some fl) init_state =
                   Some (Inr \<lparr>message = NewChunksWritten, filename = originalName fl,
                              chunkCount = length cs\<rparr>, s')))"
    by (elim exE conjE) (rule exI, intro conjI, assumption+)
  then obtain cs where
    cs: "chunkAndHash test_sha 10 example_buf = Some cs"
    and len: "length cs = (length example_buf + 10 - 1) div 10"
    and cat: "concat (map data cs) = example_buf"
    and fresh: "\<forall>fl. buffer fl = example_buf \<longrightarrow>
                (\<exists>s'. upload test_sha 10 (\<lambda>p. Written) (Some fl) init_state =
                   Some (Inr \<lparr>message = NewChunksWritten, filename = originalName fl,
                              chunkCount = length cs\<rparr>, s'))"
    by (elim exE conjE)
  have l3: "length cs = 3" using len by (simp add: example_buf_def)
  from cs have "cs = the (chunkAndHash test_sha 10 example_buf)" by simp
  then have parts: "map (\<lambda>c. length (data c)) cs = [10, 10, 5]"
    "join (map hash cs) ''-'' =
        ''000000000000000000000000000000000000000000010102030405060708090a-000000000000000000000000000000000000000000010b0c0d0e0f1011121314-0000000000000000000000000000000000000000000000000000011516171819''"
    by (simp_all add: example_chunks)
  have "originalName \<lparr>originalname = ''a.bin'', buffer = example_buf\<rparr> = ''a.bin''"
    by (simp add: originalName_def safeName_def basename_def)
  with fresh [rule_format, of "\<lparr>originalname = ''a.bin'', buffer = example_buf\<rparr>"] l3
  have "\<exists>s'. upload test_sha 10 (\<lambda>p. Written)
               (Some \<lparr>originalname = ''a.bin'', buffer = example_buf\<rparr>) init_state =
             Some (Inr \<lparr>message = NewChunksWritten, filename = ''a.bin'', chunkCount = 3\<rparr>, s')"
    by simp
  with pos ne cs l3 parts cat show ?thesis
    by (intro conjI exI [of _ cs]) assumption+
qed

section \<open>Idempotence of the upload\<close>

lemma upload_known_signature:
  assumes "chunkAndHash H S (buffer fl) = Some cs"
    and "join (map hash cs) ''-'' \<in> fileSignatures s"
  shows "upload H S outcome (Some fl) s =
     (case outcome (ManifestPath (originalName fl @ ''.json'')) of
        Written \<Rightarrow>
          Some (Inr \<lparr>message = DuplicateContent,
                     filename = originalName fl, chunkCount = length cs\<rparr>,
             s\<lparr>fileMeta := (fileMeta s)(originalName fl \<mapsto>
                  \<lparr>signature = join (map hash cs) ''-'', chunkHashes = map hash cs\<rparr>),
                manifestDir := (manifestDir s)(originalName fl @ ''.json'' \<mapsto>
                  ManifestJson (originalName fl) (join (map hash cs) ''-'')
                    (map hash cs))\<rparr>)
      | ThrowsUnopened \<Rightarrow>
          Some (Inl (Thrown (ManifestPath (originalName fl @ ''.json''))),
             s\<lparr>fileMeta := (fileMeta s)(originalName fl \<mapsto>
                \<lparr>signature = join (map hash cs) ''-'', chunkHashes = map hash cs\<rparr>)\<rparr>)
      | ThrowsTruncated n \<Rightarrow>
          Some (Inl (Thrown (ManifestPath (originalName fl @ ''.json''))),
             s\<lparr>fileMeta := (fileMeta s)(originalName fl \<mapsto>
                  \<lparr>signature = join (map hash cs) ''-'', chunkHashes = map hash cs\<rparr>),
                manifestDir := (manifestDir s)(originalName fl @ ''.json'' \<mapsto> Garbled)\<rparr>))"
  using upload_unfold [OF assms(1) write_new_chunks_known [OF assms(2)]]
  by simp

text \<open>
  C2. After a successful upload, a second upload of the same bytes (under the same or
  another name, whatever the write failures) returns, leaves the chunk directory
  exactly as it was, files the same signature and digest sequence as the first, and,
  when it answers 200, reports duplicate content with the same chunk count. The first
  upload only added chunk files: no existing one was rewritten.
\<close>

theorem ingest_idempotent:
  assumes "upload H S w1 (Some f1) s = Some (Inr r1, s1)"
    and "buffer f2 = buffer f1"
  shows "\<exists>r2 s2. upload H S w2 (Some f2) s1 = Some (r2, s2)
           \<and> chunksDir s2 = chunksDir s1
           \<and> chunksDir s \<subseteq>\<^sub>m chunksDir s1
           \<and> (\<exists>m. fileMeta s1 (originalName f1) = Some m \<and> fileMeta s2 (originalName f2) = Some m)
           \<and> (\<forall>resp. r2 = Inr resp \<longrightarrow>
                 message resp = DuplicateContent \<and> chunkCount resp = chunkCount r1)
           \<and> (\<forall>e. r2 = Inl e \<longrightarrow> w2 (ManifestPath (originalName f2 @ ''.json'')) \<noteq> Written)"
proof -
  from assms(1) obtain cs w s0 where st:
    "chunkAndHash H S (buffer f1) = Some cs"
    "write_new_chunks w1 cs (join (map hash cs) ''-'') s = (Inr w, s0)"
    "r1 = \<lparr>message = (if w then NewChunksWritten else DuplicateContent),
             filename = originalName f1, chunkCount = length cs\<rparr>"
    "s1 = s0\<lparr>fileMeta := (fileMeta s0)(originalName f1 \<mapsto>
             \<lparr>signature = join (map hash cs) ''-'', chunkHashes = map hash cs\<rparr>),
           manifestDir := (manifestDir s0)(originalName f1 @ ''.json'' \<mapsto>
             ManifestJson (originalName f1) (join (map hash cs) ''-'') (map hash cs))\<rparr>"
    by (rule upload_stored)
  let ?sig = "join (map hash cs) ''-''"
  have known: "?sig \<in> fileSignatures s1"
    using write_new_chunks_Inr(1) [OF st(2)] st(4) by simp
  have grow: "chunksDir s \<subseteq>\<^sub>m chunksDir s1"
    using write_new_chunks_frame(3) [OF st(2)] st(4) by simp
  have m1: "fileMeta s1 (originalName f1) = Some \<lparr>signature = ?sig, chunkHashes = map hash cs\<rparr>"
    using st(4) by simp
  have cs2: "chunkAndHash H S (buffer f2) = Some cs"
    using st(1) assms(2) by simp
  note u = upload_known_signature [OF cs2 known, of w2]
  show ?thesis
  proof (cases "w2 (ManifestPath (originalName f2 @ ''.json''))")
    case Written
    with u grow m1 st(3) show ?thesis by simp
  next
    case ThrowsUnopened
    with u grow m1 show ?thesis by simp
  next
    case (ThrowsTruncated n)
    with u grow m1 show ?thesis by simp
  qed
qed

theorem ingest_idempotent_witness:
  "\<exists>r1 s1. upload test_sha 10 (\<lambda>p. Written) (Some example_file) init_state = Some (Inr r1, s1) \<and>
     (\<exists>r2 s2. upload test_sha 10 (\<lambda>p. Written) (Some example_file) s1 = Some (r2, s2)
           \<and> chunksDir s2 = chunksDir s1
           \<and> r2 = Inr \<lparr>message = DuplicateContent, filename = ''a.bin'', chunkCount = 3\<rparr>)"
proof -
  obtain r1 s1 where
    u1: "upload test_sha 10 (\<lambda>p. Written) (Some example_file) init_state = Some (Inr r1, s1)"
    by (rule upload_no_failure [of 10]) simp
  from u1 obtain cs where cs: "chunkAndHash test_sha 10 (buffer example_file) = Some cs"
    and r1: "chunkCount r1 = length cs"
    by (rule upload_stored) simp
  from cs have c3: "chunkCount r1 = 3"
    unfolding r1 by (auto simp: example_file_def example_chunks)
  from ingest_idempotent [OF u1 refl, of "\<lambda>p. Written"] obtain r2 s2 where
    u2: "upload test_sha 10 (\<lambda>p. Written) (Some example_file) s1 = Some (r2, s2)"
    and same: "chunksDir s2 = chunksDir s1"
    and dup: "\<forall>resp. r2 = Inr resp \<longrightarrow>
                 message resp = DuplicateContent \<and> chunkCount resp = chunkCount r1"
    and nofail: "\<forall>e. r2 \<noteq> Inl e"
    by auto
  from nofail obtain resp where resp: "r2 = Inr resp" by (cases r2) auto
  from u2 obtain "filename resp = originalName example_file"
    unfolding resp by (rule upload_stored) simp
  then have "filename resp = ''a.bin''"
    by (simp add: originalName_def safeName_def basename_def example_file_def)
  with dup resp c3 have "r2 = Inr \<lparr>message = DuplicateContent, filename = ''a.bin'', chunkCount = 3\<rparr>"
    by simp
  with u1 u2 same show ?thesis by blast
qed

section \<open>Failure of a chunk write\<close>

lemma default_chunks:
  "chunkAndHash test_sha CHUNK_SIZE example_buf =
     Some [\<lparr>hash = ''000000000000010102030405060708090a0b0c0d0e0f10111213141516171819'', data = example_buf\<rparr>]"
  by (simp add: chunkAndHash_def chunk_loop.simps slice_def example_buf_def CHUNK_SIZE_def
        digest_eval)

text \<open>
  What the chunk loop leaves behind. A blob of the chunk directory after the loop was
  there before, or is a whole chunk of the list, or is what a throwing write left of
  the chunk it was writing; in the last case the loop ended with that exception.
\<close>

lemma write_chunks_blobs_thrown:
  "write_chunks outcome cs wrote s = (r, s') \<Longrightarrow> chunksDir s' p = Some d \<Longrightarrow>
     chunksDir s p = Some d \<or>
     (\<exists>c\<in>set cs. p = hash c @ ''.chunk'' \<and>
        (d = data c \<or>
         (r = Inl (Thrown (ChunkPath p)) \<and>
          (\<exists>n. outcome (ChunkPath p) = ThrowsTruncated n \<and> d = take n (data c)))))"
proof (induction cs arbitrary: wrote s)
  case Nil
  then show ?case by simp
next
  case (Cons c cs)
  let ?R = "\<lambda>t a. p = hash a @ ''.chunk'' \<and>
        (d = data a \<or>
         (r = Inl (Thrown (ChunkPath p)) \<and>
          (\<exists>n. outcome (ChunkPath p) = ThrowsTruncated n \<and> d = take n (data a))))"
  from Cons.prems(1) show ?case
  proof (cases rule: write_chunks_Cons_cases)
    case skipped
    from Cons.IH [OF skipped(2) Cons.prems(2)]
    have "chunksDir s p = Some d \<or> (\<exists>a\<in>set cs. ?R s a)" .
    then show ?thesis by (simp only: list.set bex_simps; blast?)
  next
    case written
    let ?s1 = "s\<lparr>chunksDir := (chunksDir s)(hash c @ ''.chunk'' \<mapsto> data c)\<rparr>"
    from Cons.IH [OF written(3) Cons.prems(2)]
    have "chunksDir ?s1 p = Some d \<or> (\<exists>a\<in>set cs. ?R s a)" .
    moreover have "chunksDir ?s1 p = Some d \<Longrightarrow> chunksDir s p = Some d \<or> ?R s c"
      by (cases "p = hash c @ ''.chunk''") simp_all
    ultimately have "chunksDir s p = Some d \<or> ?R s c \<or> (\<exists>a\<in>set cs. ?R s a)" by blast
    then show ?thesis by (simp only: list.set bex_simps; blast?)
  next
    case unopened
    with Cons.prems(2) show ?thesis by simp
  next
    case (truncated n)
    have "chunksDir s p = Some d \<or> ?R s c"
    proof (cases "p = hash c @ ''.chunk''")
      case True
      with truncated Cons.prems(2) have "d = take n (data c)" by simp
      with True truncated(2,3) show ?thesis by simp
    next
      case False
      with truncated Cons.prems(2) show ?thesis by simp
    qed
    then show ?thesis by (simp only: list.set bex_simps; blast?)
  qed
qed

text \<open>
  C5, as the specification states it, fails on the code. \<open>fs.writeFileSync\<close> creates the
  file before it writes, and the loop writes the chunk file itself, not a temporary
  file that it renames. At the chunk size of the source the 25 example bytes are one
  chunk; when its write throws after the file was created, the upload is answered with
  the exception and the chunk directory holds an empty file under the digest's name:
  a blob that was not there before and that is no chunk of the upload.
\<close>

theorem failed_chunk_write_leaves_blob:
  "chunkAndHash test_sha CHUNK_SIZE (buffer example_file) =
     Some [\<lparr>hash = ''000000000000010102030405060708090a0b0c0d0e0f10111213141516171819'',
            data = example_buf\<rparr>]
   \<and> example_buf \<noteq> []
   \<and> chunksDir init_state
        ''000000000000010102030405060708090a0b0c0d0e0f10111213141516171819.chunk'' = None
   \<and> upload test_sha CHUNK_SIZE (\<lambda>p. ThrowsTruncated 0) (Some example_file) init_state =
       Some (Inl (Thrown (ChunkPath
                 ''000000000000010102030405060708090a0b0c0d0e0f10111213141516171819.chunk'')),
             \<lparr>chunksDir =
                [''000000000000010102030405060708090a0b0c0d0e0f10111213141516171819.chunk''
                   \<mapsto> []],
              manifestDir = Map.empty, fileMeta = Map.empty, fileSignatures = {}\<rparr>)"
proof (intro conjI)
  show "chunkAndHash test_sha CHUNK_SIZE (buffer example_file) =
     Some [\<lparr>hash = ''000000000000010102030405060708090a0b0c0d0e0f10111213141516171819'',
            data = example_buf\<rparr>]"
    by (simp add: example_file_def default_chunks)
  show "example_buf \<noteq> []" by (simp add: example_buf_def)
  show "chunksDir init_state
        ''000000000000010102030405060708090a0b0c0d0e0f10111213141516171819.chunk'' = None"
    by (simp add: init_state_def)
  show "upload test_sha CHUNK_SIZE (\<lambda>p. ThrowsTruncated 0) (Some example_file) init_state =
       Some (Inl (Thrown (ChunkPath
                 ''000000000000010102030405060708090a0b0c0d0e0f10111213141516171819.chunk'')),
             \<lparr>chunksDir =
                [''000000000000010102030405060708090a0b0c0d0e0f10111213141516171819.chunk''
                   \<mapsto> []],
              manifestDir = Map.empty, fileMeta = Map.empty, fileSignatures = {}\<rparr>)"
    by (simp add: upload_def example_file_def default_chunks Let_def write_new_chunks_def
          init_state_def)
qed

text \<open>
  C5 as the code has it. Take an upload whose signature is not yet in
  \<open>fileSignatures\<close>. If the write of one of its missing chunk files throws, the handler
  answers with the exception of a chunk write, and \<open>fileMeta\<close>, \<open>fileSignatures\<close> and the
  manifest directory are as before. The chunk directory keeps what it had; what it
  gained is a whole chunk of this upload or, under the name of the chunk whose write
  threw, the bytes of that chunk that were written before the exception. And whenever
  the signature is in \<open>fileSignatures\<close> after the handler, every chunk file of the upload
  exists.
\<close>

theorem chunk_write_failure_aborts:
  assumes "chunkAndHash H S (buffer fl) = Some cs"
    and "join (map hash cs) ''-'' \<notin> fileSignatures s"
  shows "(\<forall>outcome.
            (\<exists>c\<in>set cs. chunksDir s (hash c @ ''.chunk'') = None \<and>
                         outcome (ChunkPath (hash c @ ''.chunk'')) \<noteq> Written) \<longrightarrow>
            (\<exists>e s'. upload H S outcome (Some fl) s = Some (Inl e, s')
               \<and> (\<exists>c\<in>set cs. e = Thrown (ChunkPath (hash c @ ''.chunk'')))
               \<and> fileMeta s' = fileMeta s \<and> fileSignatures s' = fileSignatures s
               \<and> manifestDir s' = manifestDir s
               \<and> chunksDir s \<subseteq>\<^sub>m chunksDir s'
               \<and> (\<forall>p d. chunksDir s' p = Some d \<longrightarrow>
                      chunksDir s p = Some d \<or>
                      (\<exists>c\<in>set cs. p = hash c @ ''.chunk'' \<and>
                         (d = data c \<or>
                          (e = Thrown (ChunkPath p) \<and>
                           (\<exists>n. outcome (ChunkPath p) = ThrowsTruncated n \<and>
                                d = take n (data c))))))))
       \<and> (\<forall>outcome r s'.
            upload H S outcome (Some fl) s = Some (r, s') \<longrightarrow>
            join (map hash cs) ''-'' \<in> fileSignatures s' \<longrightarrow>
            (\<forall>c\<in>set cs. chunksDir s' (hash c @ ''.chunk'') \<noteq> None))"
proof (intro conjI allI impI)
  fix outcome
  assume "\<exists>c\<in>set cs. chunksDir s (hash c @ ''.chunk'') = None \<and>
                      outcome (ChunkPath (hash c @ ''.chunk'')) \<noteq> Written"
  then have "\<exists>e. fst (write_chunks outcome cs False s) = Inl e"
    by (simp only: write_chunks_fails_iff)
  then obtain e s' where w: "write_chunks outcome cs False s = (Inl e, s')"
    by (cases "write_chunks outcome cs False s") auto
  with assms(2) have "write_new_chunks outcome cs (join (map hash cs) ''-'') s = (Inl e, s')"
    by (simp add: write_new_chunks_def)
  from upload_unfold [OF assms(1) this]
  have u: "upload H S outcome (Some fl) s = Some (Inl e, s')" by simp
  from write_chunks_frame [OF w]
  have fr: "fileMeta s' = fileMeta s" "manifestDir s' = manifestDir s"
    "fileSignatures s' = fileSignatures s" "chunksDir s \<subseteq>\<^sub>m chunksDir s'"
    by simp_all
  from write_chunks_thrown [OF w]
  have th: "\<exists>c\<in>set cs. e = Thrown (ChunkPath (hash c @ ''.chunk''))"
    by blast
  have nb: "\<forall>p d. chunksDir s' p = Some d \<longrightarrow>
                      chunksDir s p = Some d \<or>
                      (\<exists>c\<in>set cs. p = hash c @ ''.chunk'' \<and>
                         (d = data c \<or>
                          (e = Thrown (ChunkPath p) \<and>
                           (\<exists>n. outcome (ChunkPath p) = ThrowsTruncated n \<and>
                                d = take n (data c)))))"
  proof (intro allI impI)
    fix p d
    assume "chunksDir s' p = Some d"
    from write_chunks_blobs_thrown [OF w this]
    show "chunksDir s p = Some d \<or>
                      (\<exists>c\<in>set cs. p = hash c @ ''.chunk'' \<and>
                         (d = data c \<or>
                          (e = Thrown (ChunkPath p) \<and>
                           (\<exists>n. outcome (ChunkPath p) = ThrowsTruncated n \<and>
                                d = take n (data c)))))"
      by (simp only: sum.inject)
  qed
  from u fr th nb show "\<exists>e s'. upload H S outcome (Some fl) s = Some (Inl e, s')
               \<and> (\<exists>c\<in>set cs. e = Thrown (ChunkPath (hash c @ ''.chunk'')))
               \<and> fileMeta s' = fileMeta s \<and> fileSignatures s' = fileSignatures s
               \<and> manifestDir s' = manifestDir s
               \<and> chunksDir s \<subseteq>\<^sub>m chunksDir s'
               \<and> (\<forall>p d. chunksDir s' p = Some d \<longrightarrow>
                      chunksDir s p = Some d \<or>
                      (\<exists>c\<in>set cs. p = hash c @ ''.chunk'' \<and>
                         (d = data c \<or>
                          (e = Thrown (ChunkPath p) \<and>
                           (\<exists>n. outcome (ChunkPath p) = ThrowsTruncated n \<and>
                                d = take n (data c))))))"
    by (intro exI [of _ e] exI [of _ s'] conjI) assumption+
next
  fix outcome r s'
  assume u: "upload H S outcome (Some fl) s = Some (r, s')"
    and k: "join (map hash cs) ''-'' \<in> fileSignatures s'"
  have "\<And>c. c \<in> set cs \<Longrightarrow> chunksDir s' (hash c @ ''.chunk'') \<noteq> None"
    using u
  proof (cases rule: upload_Some_cases)
    case (chunk_write_failed cs' e)
    with assms(1) have "cs' = cs" by simp
    with chunk_write_failed(2) have "fileSignatures s' = fileSignatures s"
      using write_chunks_frame [of outcome cs False s "Inl e" s'] write_new_chunks_Inl by blast
    with k assms(2) show "\<And>c. c \<in> set cs \<Longrightarrow> chunksDir s' (hash c @ ''.chunk'') \<noteq> None"
      by simp
  next
    case (manifest_write_failed cs' w s1)
    with assms(1) have "cs' = cs" by simp
    with manifest_write_failed(2)
    have "\<And>c. c \<in> set cs \<Longrightarrow> chunksDir s1 (hash c @ ''.chunk'') \<noteq> None"
      using write_new_chunks_Inr(5) assms(2) by blast
    with manifest_write_failed(6)
    show "\<And>c. c \<in> set cs \<Longrightarrow> chunksDir s' (hash c @ ''.chunk'') \<noteq> None" by simp
  next
    case (stored cs' w s1)
    with assms(1) have "cs' = cs" by simp
    with stored(2)
    have "\<And>c. c \<in> set cs \<Longrightarrow> chunksDir s1 (hash c @ ''.chunk'') \<noteq> None"
      using write_new_chunks_Inr(5) assms(2) by blast
    with stored(5)
    show "\<And>c. c \<in> set cs \<Longrightarrow> chunksDir s' (hash c @ ''.chunk'') \<noteq> None" by simp
  qed
  then show "\<forall>c\<in>set cs. chunksDir s' (hash c @ ''.chunk'') \<noteq> None" by blast
qed

theorem chunk_write_failure_aborts_witness:
  "join (map hash (the (chunkAndHash test_sha 10 (buffer example_file)))) ''-''
     \<notin> fileSignatures init_state \<and>
   (\<exists>s'. upload test_sha 10
             (\<lambda>p. if p = ChunkPath ''000000000000000000000000000000000000000000010b0c0d0e0f1011121314.chunk''
                  then ThrowsTruncated 3 else Written)
             (Some example_file) init_state =
           Some (Inl (Thrown (ChunkPath ''000000000000000000000000000000000000000000010b0c0d0e0f1011121314.chunk'')), s')
      \<and> fileMeta s' = Map.empty \<and> fileSignatures s' = {} \<and> manifestDir s' = Map.empty
      \<and> chunksDir s' ''000000000000000000000000000000000000000000010102030405060708090a.chunk'' = Some [1, 2, 3, 4, 5, 6, 7, 8, 9, 10]
      \<and> chunksDir s' ''000000000000000000000000000000000000000000010b0c0d0e0f1011121314.chunk'' = Some [11, 12, 13]
      \<and> chunksDir s' ''0000000000000000000000000000000000000000000000000000011516171819.chunk'' = None)"
proof -
  let ?cs = "[\<lparr>hash = ''000000000000000000000000000000000000000000010102030405060708090a'',
            data = [1, 2, 3, 4, 5, 6, 7, 8, 9, 10]\<rparr>,
          \<lparr>hash = ''000000000000000000000000000000000000000000010b0c0d0e0f1011121314'',
            data = [11, 12, 13, 14, 15, 16, 17, 18, 19, 20]\<rparr>,
          \<lparr>hash = ''0000000000000000000000000000000000000000000000000000011516171819'',
            data = [21, 22, 23, 24, 25]\<rparr>]"
  let ?outcome = "\<lambda>p. if p = ChunkPath ''000000000000000000000000000000000000000000010b0c0d0e0f1011121314.chunk''
                  then ThrowsTruncated 3 else Written"
  have cs: "chunkAndHash test_sha 10 (buffer example_file) = Some ?cs"
    by (simp add: example_file_def example_chunks)
  have fresh: "join (map hash ?cs) ''-'' \<notin> fileSignatures init_state"
    by (simp add: init_state_def)
  have fails: "\<exists>c\<in>set ?cs. chunksDir init_state (hash c @ ''.chunk'') = None \<and>
                 ?outcome (ChunkPath (hash c @ ''.chunk'')) \<noteq> Written"
    by (simp add: init_state_def)
  from chunk_write_failure_aborts [OF cs fresh, THEN conjunct1, rule_format, of ?outcome, OF fails]
  obtain e s' where u: "upload test_sha 10 ?outcome (Some example_file) init_state = Some (Inl e, s')"
    and fr: "fileMeta s' = fileMeta init_state" "fileSignatures s' = fileSignatures init_state"
      "manifestDir s' = manifestDir init_state"
    by (elim exE conjE)
  have ev: "\<exists>t. upload test_sha 10 ?outcome (Some example_file) init_state =
             Some (Inl (Thrown (ChunkPath ''000000000000000000000000000000000000000000010b0c0d0e0f1011121314.chunk'')), t)
      \<and> chunksDir t ''000000000000000000000000000000000000000000010102030405060708090a.chunk'' = Some [1, 2, 3, 4, 5, 6, 7, 8, 9, 10]
      \<and> chunksDir t ''000000000000000000000000000000000000000000010b0c0d0e0f1011121314.chunk'' = Some [11, 12, 13]
      \<and> chunksDir t ''0000000000000000000000000000000000000000000000000000011516171819.chunk'' = None"
    by (simp add: upload_def cs Let_def write_new_chunks_def init_state_def)
  with u have "e = Thrown (ChunkPath ''000000000000000000000000000000000000000000010b0c0d0e0f1011121314.chunk'')"
    "chunksDir s' ''000000000000000000000000000000000000000000010102030405060708090a.chunk'' = Some [1, 2, 3, 4, 5, 6, 7, 8, 9, 10]"
    "chunksDir s' ''000000000000000000000000000000000000000000010b0c0d0e0f1011121314.chunk'' = Some [11, 12, 13]"
    "chunksDir s' ''0000000000000000000000000000000000000000000000000000011516171819.chunk'' = None"
    by auto
  with u fr fresh cs show ?thesis
    by (simp add: init_state_def)
qed

section \<open>Rejected uploads\<close>

lemma chunkAndHash_empty: "chunkAndHash H S [] = Some []"
  by (simp add: chunkAndHash_def chunk_loop.simps)

lemma write_new_chunks_empty:
  "write_new_chunks outcome [] sig s = (Inr False, s\<lparr>fileSignatures := insert sig (fileSignatures s)\<rparr>)"
  by (simp add: write_new_chunks_def insert_absorb)

lemma originalName_cases:
  "originalName fl = (if originalname fl = [] then ''unnamed'' else basename (originalname fl))"
  by (simp add: originalName_def safeName_def basename_def)

lemma stored_example_meta:
  "fileMeta stored_example =
     [''a.bin'' \<mapsto> \<lparr>signature = ''000000000000000000000000000000000000000000010102030405060708090a-000000000000000000000000000000000000000000010b0c0d0e0f1011121314-0000000000000000000000000000000000000000000000000000011516171819'',
        chunkHashes = [''000000000000000000000000000000000000000000010102030405060708090a'', ''000000000000000000000000000000000000000000010b0c0d0e0f1011121314'', ''0000000000000000000000000000000000000000000000000000011516171819'']\<rparr>]"
  by (simp add: stored_example_def upload_def example_file_def example_chunks Let_def
        write_new_chunks_def init_state_def saveManifest_def originalName_cases basename_def)

lemma stored_example_chunks:
  "chunksDir stored_example =
     [''000000000000000000000000000000000000000000010102030405060708090a.chunk'' \<mapsto> [1, 2, 3, 4, 5, 6, 7, 8, 9, 10],
      ''000000000000000000000000000000000000000000010b0c0d0e0f1011121314.chunk'' \<mapsto> [11, 12, 13, 14, 15, 16, 17, 18, 19, 20],
      ''0000000000000000000000000000000000000000000000000000011516171819.chunk'' \<mapsto> [21, 22, 23, 24, 25]]"
  by (simp add: stored_example_def upload_def example_file_def example_chunks Let_def
        write_new_chunks_def init_state_def saveManifest_def originalName_cases basename_def)

text \<open>
  C7, as the specification states it, fails on the code: an upload with an empty buffer
  is answered with 200 and leaves a signature, a \<open>fileMeta\<close> entry and a manifest.
\<close>

theorem empty_upload_accepted:
  "upload test_sha CHUNK_SIZE (\<lambda>p. Written)
     (Some \<lparr>originalname = ''empty.bin'', buffer = []\<rparr>) init_state =
   Some (Inr \<lparr>message = DuplicateContent, filename = ''empty.bin'', chunkCount = 0\<rparr>,
         \<lparr>chunksDir = Map.empty,
          manifestDir = [''empty.bin.json'' \<mapsto> ManifestJson ''empty.bin'' [] []],
          fileMeta = [''empty.bin'' \<mapsto> \<lparr>signature = [], chunkHashes = []\<rparr>],
          fileSignatures = {[]}\<rparr>)"
  by (simp add: upload_def chunkAndHash_empty write_new_chunks_empty Let_def saveManifest_def
        init_state_def originalName_cases basename_def)

text \<open>
  C7 as the code has it. The only rejected upload is the one without a file, which
  changes nothing. An empty buffer is accepted: no chunk is written, the empty
  signature is recorded, an entry with an empty digest list is filed under the
  handler's name and, unless that write throws, saved as a manifest; the answer
  reports no new chunks and a chunk count of 0. When the write of the manifest throws,
  the answer is the exception, the signature and the entry stay, and the manifest file
  is as it was if it could not be opened and unreadable if it was. No name is rejected:
  an empty one becomes \<open>unnamed\<close>, any other its basename.
\<close>

theorem upload_rejects_only_missing_file:
  "upload H S outcome None s = Some (Inl NoFileProvided, s)
   \<and> (\<forall>fl r s'. upload H S outcome (Some fl) s = Some (r, s') \<longrightarrow> r \<noteq> Inl NoFileProvided)
   \<and> (\<forall>fl. buffer fl = [] \<longrightarrow>
         upload H S outcome (Some fl) s =
           (case outcome (ManifestPath (originalName fl @ ''.json'')) of
              Written \<Rightarrow>
                Some (Inr \<lparr>message = DuplicateContent, filename = originalName fl,
                           chunkCount = 0\<rparr>,
                   s\<lparr>fileSignatures := insert [] (fileSignatures s),
                     fileMeta := (fileMeta s)(originalName fl \<mapsto>
                        \<lparr>signature = [], chunkHashes = []\<rparr>),
                     manifestDir := (manifestDir s)(originalName fl @ ''.json'' \<mapsto>
                        ManifestJson (originalName fl) [] [])\<rparr>)
            | ThrowsUnopened \<Rightarrow>
                Some (Inl (Thrown (ManifestPath (originalName fl @ ''.json''))),
                   s\<lparr>fileSignatures := insert [] (fileSignatures s),
                     fileMeta := (fileMeta s)(originalName fl \<mapsto>
                        \<lparr>signature = [], chunkHashes = []\<rparr>)\<rparr>)
            | ThrowsTruncated n \<Rightarrow>
                Some (Inl (Thrown (ManifestPath (originalName fl @ ''.json''))),
                   s\<lparr>fileSignatures := insert [] (fileSignatures s),
                     fileMeta := (fileMeta s)(originalName fl \<mapsto>
                        \<lparr>signature = [], chunkHashes = []\<rparr>),
                     manifestDir := (manifestDir s)(originalName fl @ ''.json'' \<mapsto>
                        Garbled)\<rparr>)))
   \<and> (\<forall>fl. originalName fl =
         (if originalname fl = [] then ''unnamed'' else basename (originalname fl)))"
proof (intro conjI allI impI)
  show "upload H S outcome None s = Some (Inl NoFileProvided, s)"
    by (rule upload_None)
next
  fix fl r s'
  assume "upload H S outcome (Some fl) s = Some (r, s')"
  then show "r \<noteq> Inl NoFileProvided"
  proof (cases rule: upload_Some_cases)
    case (chunk_write_failed cs e)
    from write_new_chunks_Inl [OF chunk_write_failed(2)] write_chunks_thrown [of outcome cs False s e s']
    show ?thesis using chunk_write_failed(3) by auto
  qed simp_all
next
  fix fl :: upload_file
  assume "buffer fl = []"
  then have "chunkAndHash H S (buffer fl) = Some []"
    by (simp add: chunkAndHash_empty)
  from upload_unfold [OF this, of outcome s, simplified, OF write_new_chunks_empty]
  show "upload H S outcome (Some fl) s =
           (case outcome (ManifestPath (originalName fl @ ''.json'')) of
              Written \<Rightarrow>
                Some (Inr \<lparr>message = DuplicateContent, filename = originalName fl,
                           chunkCount = 0\<rparr>,
                   s\<lparr>fileSignatures := insert [] (fileSignatures s),
                     fileMeta := (fileMeta s)(originalName fl \<mapsto>
                        \<lparr>signature = [], chunkHashes = []\<rparr>),
                     manifestDir := (manifestDir s)(originalName fl @ ''.json'' \<mapsto>
                        ManifestJson (originalName fl) [] [])\<rparr>)
            | ThrowsUnopened \<Rightarrow>
                Some (Inl (Thrown (ManifestPath (originalName fl @ ''.json''))),
                   s\<lparr>fileSignatures := insert [] (fileSignatures s),
                     fileMeta := (fileMeta s)(originalName fl \<mapsto>
                        \<lparr>signature = [], chunkHashes = []\<rparr>)\<rparr>)
            | ThrowsTruncated n \<Rightarrow>
                Some (Inl (Thrown (ManifestPath (originalName fl @ ''.json''))),
                   s\<lparr>fileSignatures := insert [] (fileSignatures s),
                     fileMeta := (fileMeta s)(originalName fl \<mapsto>
                        \<lparr>signature = [], chunkHashes = []\<rparr>),
                     manifestDir := (manifestDir s)(originalName fl @ ''.json'' \<mapsto>
                        Garbled)\<rparr>))"
    by (simp split: write_result.split)
next
  fix fl
  show "originalName fl =
         (if originalname fl = [] then ''unnamed'' else basename (originalname fl))"
    by (rule originalName_cases)
qed

theorem upload_rejects_only_missing_file_witness:
  "upload test_sha CHUNK_SIZE (\<lambda>p. Written) None stored_example =
     Some (Inl NoFileProvided, stored_example)
   \<and> upload test_sha CHUNK_SIZE (\<lambda>p. Written)
       (Some \<lparr>originalname = [], buffer = []\<rparr>) init_state =
     Some (Inr \<lparr>message = DuplicateContent, filename = ''unnamed'', chunkCount = 0\<rparr>,
           \<lparr>chunksDir = Map.empty,
            manifestDir = [''unnamed.json'' \<mapsto> ManifestJson ''unnamed'' [] []],
            fileMeta = [''unnamed'' \<mapsto> \<lparr>signature = [], chunkHashes = []\<rparr>],
            fileSignatures = {[]}\<rparr>)
   \<and> originalName \<lparr>originalname = ''/tmp/x/'', buffer = []\<rparr> = ''x''"
proof -
  note t = upload_rejects_only_missing_file [of test_sha CHUNK_SIZE "\<lambda>p. Written"]
  have a: "upload test_sha CHUNK_SIZE (\<lambda>p. Written) None stored_example =
     Some (Inl NoFileProvided, stored_example)"
    using t [of stored_example] by (elim conjE)
  have n: "\<And>fl. originalName fl =
         (if originalname fl = [] then ''unnamed'' else basename (originalname fl))"
    using t [of init_state] by (elim conjE) (erule spec)
  have e: "\<And>fl. buffer fl = [] \<Longrightarrow>
         upload test_sha CHUNK_SIZE (\<lambda>p. Written) (Some fl) init_state =
           Some (Inr \<lparr>message = DuplicateContent, filename = originalName fl,
                           chunkCount = 0\<rparr>,
                   init_state\<lparr>fileSignatures := insert [] (fileSignatures init_state),
                     fileMeta := (fileMeta init_state)(originalName fl \<mapsto>
                        \<lparr>signature = [], chunkHashes = []\<rparr>),
                     manifestDir := (manifestDir init_state)(originalName fl @ ''.json'' \<mapsto>
                        ManifestJson (originalName fl) [] [])\<rparr>)"
    using t [of init_state] by simp
  have "upload test_sha CHUNK_SIZE (\<lambda>p. Written)
       (Some \<lparr>originalname = [], buffer = []\<rparr>) init_state =
     Some (Inr \<lparr>message = DuplicateContent, filename = ''unnamed'', chunkCount = 0\<rparr>,
           \<lparr>chunksDir = Map.empty,
            manifestDir = [''unnamed.json'' \<mapsto> ManifestJson ''unnamed'' [] []],
            fileMeta = [''unnamed'' \<mapsto> \<lparr>signature = [], chunkHashes = []\<rparr>],
            fileSignatures = {[]}\<rparr>)"
    by (subst e) (simp_all add: n init_state_def)
  moreover have "originalName \<lparr>originalname = ''/tmp/x/'', buffer = []\<rparr> = ''x''"
    by (simp add: n basename_def)
  ultimately show ?thesis using a by simp
qed

section \<open>Outcomes of the download\<close>

lemma read_chunks_eq:
  "read_chunks s hs =
     (if \<forall>h\<in>set hs. chunksDir s (h @ ''.chunk'') \<noteq> None
      then Some (map (\<lambda>h. the (chunksDir s (h @ ''.chunk''))) hs)
      else None)"
  by (induction hs) (auto split: option.splits)






section \<open>Names, digests and signatures\<close>

lemma dropWhile_absent: "x \<notin> set xs \<Longrightarrow> dropWhile (\<lambda>c. c = x) xs = xs"
  by (cases xs) auto

lemma takeWhile_absent: "x \<notin> set xs \<Longrightarrow> takeWhile (\<lambda>c. c \<noteq> x) xs = xs"
  by (induction xs) auto

lemma takeWhile_excludes: "x \<notin> set (takeWhile (\<lambda>c. c \<noteq> x) xs)"
  by (auto dest: set_takeWhileD)

lemma basename_no_slash: "CHR ''/'' \<notin> set (basename p)"
proof -
  have "CHR ''/'' \<notin> set (takeWhile (\<lambda>c. c \<noteq> CHR ''/'') xs)" for xs
    by (rule takeWhile_excludes)
  then show ?thesis by (simp add: basename_def)
qed

lemma basename_without_slash:
  assumes "CHR ''/'' \<notin> set p"
  shows "basename p = p"
proof -
  from assms have a: "CHR ''/'' \<notin> set (rev p)"
    by simp
  have "dropWhile (\<lambda>c. c = CHR ''/'') (rev p) = rev p"
    using a by (rule dropWhile_absent)
  moreover have "takeWhile (\<lambda>c. c \<noteq> CHR ''/'') (rev p) = rev p"
    using a by (rule takeWhile_absent)
  ultimately show ?thesis by (simp only: basename_def rev_rev_ident)
qed

lemma basename_idem: "basename (basename p) = basename p"
  by (rule basename_without_slash) (rule basename_no_slash)

lemma originalName_no_slash: "CHR ''/'' \<notin> set (originalName fl)"
  by (simp add: originalName_def safeName_def basename_no_slash)

lemma hexchar_in: "n < 16 \<Longrightarrow> hexchar n \<in> set ''0123456789abcdef''"
  unfolding hexchar_def by (rule nth_mem) simp





section \<open>Bootstrap and restart\<close>


lemma bootstrap_file_disk:
  "chunksDir (bootstrap_file s p) = chunksDir s"
  "manifestDir (bootstrap_file s p) = manifestDir s"
  by (simp_all add: bootstrap_file_def split: option.splits manifest_text.splits)

lemma bootstrap_disk:
  "chunksDir (bootstrap l s) = chunksDir s \<and> manifestDir (bootstrap l s) = manifestDir s"
  unfolding bootstrap_def
  by (induction l arbitrary: s) (simp_all add: bootstrap_file_disk)



lemma bootstrap_file_keys:
  "fileMeta (bootstrap_file s p) k = Some m \<Longrightarrow>
     fileMeta s k = Some m \<or>
     manifestDir s p = Some (ManifestJson k (signature m) (chunkHashes m))"
  by (auto simp: bootstrap_file_def split: if_splits option.splits manifest_text.splits)

lemma bootstrap_keys:
  "fileMeta (bootstrap l s) k = Some m \<Longrightarrow>
     fileMeta s k = Some m \<or>
     (\<exists>p. manifestDir s p = Some (ManifestJson k (signature m) (chunkHashes m)))"
  unfolding bootstrap_def
proof (induction l arbitrary: s)
  case Nil
  then show ?case by simp
next
  case (Cons p l)
  from Cons.prems have "fileMeta (foldl bootstrap_file (bootstrap_file s p) l) k = Some m"
    by simp
  from Cons.IH [OF this] bootstrap_file_keys [of s p k m] show ?case
    by (auto simp: bootstrap_file_disk)
qed

lemma restart_fields:
  "chunksDir (restart s) = chunksDir s" "manifestDir (restart s) = manifestDir s"
  "fileMeta (restart s) = Map.empty" "fileSignatures (restart s) = {}"
  by (simp_all add: restart_def)

section \<open>Invariants: chunk names and signatures\<close>
















section \<open>Round trip\<close>








lemma stored_example_reachable_in:
  assumes "(\<lambda>p. Written) \<in> F"
  shows "reachable test_sha 10 F stored_example"
proof -
  obtain r0 s0 where
    u: "upload test_sha 10 (\<lambda>p. Written) (Some example_file) init_state = Some (Inr r0, s0)"
    by (rule upload_no_failure [of 10]) simp
  then have "stored_example = s0" by (simp add: stored_example_def)
  with reachable.upload [OF reachable.init assms u] show ?thesis by simp
qed

lemma stored_example_reachable: "reachable test_sha 10 UNIV stored_example"
  by (rule stored_example_reachable_in) simp



section \<open>Sanitised names\<close>

lemma names_sanitisedI:
  assumes "\<And>k m. fileMeta s k = Some m \<Longrightarrow> CHR ''/'' \<notin> set k"
    and "\<And>p f sig hs. manifestDir s p = Some (ManifestJson f sig hs) \<Longrightarrow> CHR ''/'' \<notin> set f"
  shows "names_sanitised s"
  unfolding names_sanitised_def
proof (intro conjI ballI allI impI)
  fix k assume "k \<in> dom (fileMeta s)"
  then obtain m where "fileMeta s k = Some m" by (auto simp: dom_def)
  then show "CHR ''/'' \<notin> set k" by (rule assms(1))
next
  fix p f sig hs assume "manifestDir s p = Some (ManifestJson f sig hs)"
  then show "CHR ''/'' \<notin> set f" by (rule assms(2))
qed

lemma names_sanitisedD:
  assumes "names_sanitised s"
  shows "fileMeta s k = Some m \<Longrightarrow> CHR ''/'' \<notin> set k"
    and "manifestDir s p = Some (ManifestJson f sig hs) \<Longrightarrow> CHR ''/'' \<notin> set f"
proof -
  note d = assms [unfolded names_sanitised_def]
  show "CHR ''/'' \<notin> set k" if "fileMeta s k = Some m"
  proof -
    from that have "k \<in> dom (fileMeta s)" by (rule domI)
    with d [THEN conjunct1] show ?thesis by (rule bspec)
  qed
  show "CHR ''/'' \<notin> set f" if "manifestDir s p = Some (ManifestJson f sig hs)"
    using d [THEN conjunct2, rule_format, OF that] .
qed

lemma upload_names_sanitised:
  assumes inv: "names_sanitised s" and u: "upload H S outcome req s = Some (r, s')"
  shows "names_sanitised s'"
proof (cases req)
  case None
  with assms show ?thesis by (simp add: upload_def)
next
  case (Some fl)
  with u have "upload H S outcome (Some fl) s = Some (r, s')" by simp
  then show ?thesis
  proof (cases rule: upload_Some_cases)
    case (chunk_write_failed cs e)
    from write_new_chunks_frame(1,2) [OF chunk_write_failed(2)]
    have fr: "fileMeta s' = fileMeta s" "manifestDir s' = manifestDir s" .
    show ?thesis
    proof (rule names_sanitisedI)
      fix k m assume "fileMeta s' k = Some m"
      then show "CHR ''/'' \<notin> set k" unfolding fr by (rule names_sanitisedD(1) [OF inv])
    next
      fix p f sig hs assume "manifestDir s' p = Some (ManifestJson f sig hs)"
      then show "CHR ''/'' \<notin> set f" unfolding fr by (rule names_sanitisedD(2) [OF inv])
    qed
  next
    case (manifest_write_failed cs w s1)
    from write_new_chunks_frame(1,2) [OF manifest_write_failed(2)]
      manifest_write_failed(5,8)
    have fr: "fileMeta s' = (fileMeta s)(originalName fl \<mapsto>
               \<lparr>signature = join (map hash cs) ''-'', chunkHashes = map hash cs\<rparr>)"
      "manifestDir s' = manifestDir s \<or>
         manifestDir s' = (manifestDir s)(originalName fl @ ''.json'' \<mapsto> Garbled)"
      by simp_all
    show ?thesis
    proof (rule names_sanitisedI)
      fix k m assume a: "fileMeta s' k = Some m"
      show "CHR ''/'' \<notin> set k"
      proof (cases "k = originalName fl")
        case True
        show ?thesis unfolding True by (rule originalName_no_slash)
      next
        case False
        with a fr(1) have "fileMeta s k = Some m" by simp
        then show ?thesis by (rule names_sanitisedD(1) [OF inv])
      qed
    next
      fix p f sig hs assume b: "manifestDir s' p = Some (ManifestJson f sig hs)"
      from fr(2) have "manifestDir s p = Some (ManifestJson f sig hs)"
      proof
        assume "manifestDir s' = manifestDir s"
        with b show ?thesis by simp
      next
        assume "manifestDir s' = (manifestDir s)(originalName fl @ ''.json'' \<mapsto> Garbled)"
        with b show ?thesis by (simp split: if_splits)
      qed
      then show "CHR ''/'' \<notin> set f" by (rule names_sanitisedD(2) [OF inv])
    qed
  next
    case (stored cs w s1)
    from write_new_chunks_frame(1,2) [OF stored(2)] stored(5)
    have fr: "fileMeta s' = (fileMeta s)(originalName fl \<mapsto>
               \<lparr>signature = join (map hash cs) ''-'', chunkHashes = map hash cs\<rparr>)"
      "manifestDir s' = (manifestDir s)(originalName fl @ ''.json'' \<mapsto>
               ManifestJson (originalName fl) (join (map hash cs) ''-'') (map hash cs))"
      by simp_all
    show ?thesis
    proof (rule names_sanitisedI)
      fix k m assume a: "fileMeta s' k = Some m"
      show "CHR ''/'' \<notin> set k"
      proof (cases "k = originalName fl")
        case True
        show ?thesis unfolding True by (rule originalName_no_slash)
      next
        case False
        with a fr(1) have "fileMeta s k = Some m" by simp
        then show ?thesis by (rule names_sanitisedD(1) [OF inv])
      qed
    next
      fix p f sig hs assume a: "manifestDir s' p = Some (ManifestJson f sig hs)"
      show "CHR ''/'' \<notin> set f"
      proof (cases "p = originalName fl @ ''.json''")
        case True
        with a fr(2) have f: "f = originalName fl" by auto
        show ?thesis unfolding f by (rule originalName_no_slash)
      next
        case False
        with a fr(2) have "manifestDir s p = Some (ManifestJson f sig hs)" by simp
        then show ?thesis by (rule names_sanitisedD(2) [OF inv])
      qed
    qed
  qed
qed

lemma restart_names_sanitised:
  assumes "names_sanitised s"
  shows "names_sanitised (bootstrap l (restart s))"
proof (rule names_sanitisedI)
  let ?t = "bootstrap l (restart s)"
  have disk: "manifestDir ?t = manifestDir s"
    using bootstrap_disk [of l "restart s"] by (simp add: restart_fields)
  {
    fix k m assume "fileMeta ?t k = Some m"
    from bootstrap_keys [OF this]
    obtain p where "manifestDir s p = Some (ManifestJson k (signature m) (chunkHashes m))"
      by (auto simp: restart_fields)
    then show "CHR ''/'' \<notin> set k" by (rule names_sanitisedD(2) [OF assms])
  }
  {
    fix p f sig hs assume "manifestDir ?t p = Some (ManifestJson f sig hs)"
    then have "manifestDir s p = Some (ManifestJson f sig hs)" unfolding disk .
    then show "CHR ''/'' \<notin> set f" by (rule names_sanitisedD(2) [OF assms])
  }
qed

lemma reachable_names_sanitised: "reachable H S F s \<Longrightarrow> names_sanitised s"
proof (induction rule: reachable.induct)
  case init
  show ?case
  proof (rule names_sanitisedI)
    fix k m assume "fileMeta init_state k = Some m"
    then have False by (simp add: init_state_def)
    then show "CHR ''/'' \<notin> set k" ..
  next
    fix p f sig hs assume "manifestDir init_state p = Some (ManifestJson f sig hs)"
    then have False by (simp add: init_state_def)
    then show "CHR ''/'' \<notin> set f" ..
  qed
next
  case (upload s outcome req r s')
  from upload.IH upload.hyps(3) show ?case by (rule upload_names_sanitised)
next
  case (restart s listing)
  from restart.IH show ?case by (rule restart_names_sanitised)
qed

lemma upload_stored_index:
  assumes "upload H S outcome (Some fl) s = Some (Inr r, s')"
  shows "filename r = originalName fl"
    and "list_filenames s' = insert (originalName fl) (list_filenames s)"
proof -
  from assms obtain cs w s1 where st:
    "write_new_chunks outcome cs (join (map hash cs) ''-'') s = (Inr w, s1)"
    "r = \<lparr>message = (if w then NewChunksWritten else DuplicateContent),
             filename = originalName fl, chunkCount = length cs\<rparr>"
    "s' = s1\<lparr>fileMeta := (fileMeta s1)(originalName fl \<mapsto>
             \<lparr>signature = join (map hash cs) ''-'', chunkHashes = map hash cs\<rparr>),
           manifestDir := (manifestDir s1)(originalName fl @ ''.json'' \<mapsto>
             ManifestJson (originalName fl) (join (map hash cs) ''-'') (map hash cs))\<rparr>"
    by (rule upload_stored)
  from st(2) show "filename r = originalName fl" by simp
  from write_new_chunks_frame(1) [OF st(1)] st(3)
  show "list_filenames s' = insert (originalName fl) (list_filenames s)"
    by (simp add: list_filenames_def)
qed

text \<open>
  C9. The download looks up the basename of the name it is given, so a name and its
  basename are served alike. A successful upload with a non-empty name answers with
  the basename of that name and adds it to the listed names. In every state reached
  from an empty installation, no listed name contains a slash. (An empty
  \<open>originalname\<close> is replaced by \<open>unnamed\<close> before it is sanitised.)
\<close>

theorem basename_aliasing:
  "download fname s = download (basename fname) s
   \<and> (\<forall>H S outcome fl r s'.
        originalname fl \<noteq> [] \<longrightarrow> upload H S outcome (Some fl) s = Some (Inr r, s') \<longrightarrow>
          filename r = basename (originalname fl) \<and>
          list_filenames s' = insert (basename (originalname fl)) (list_filenames s))
   \<and> (\<forall>H S F t. reachable H S F t \<longrightarrow> (\<forall>k\<in>list_filenames t. CHR ''/'' \<notin> set k))"
proof (intro conjI allI impI ballI)
  show "download fname s = download (basename fname) s"
    by (simp add: download_def safeName_def basename_idem)
next
  fix H S outcome fl r s'
  assume ne: "originalname fl \<noteq> []"
    and u: "upload H S outcome (Some fl) s = Some (Inr r, s')"
  from upload_stored_index(1) [OF u] ne
  show "filename r = basename (originalname fl)"
    by (simp add: originalName_cases)
  from upload_stored_index(2) [OF u] ne
  show "list_filenames s' = insert (basename (originalname fl)) (list_filenames s)"
    by (simp add: originalName_cases)
next
  fix H S F t k
  assume k: "k \<in> list_filenames t"
  assume "reachable H S F t"
  then have "names_sanitised t" by (rule reachable_names_sanitised)
  moreover from k obtain m where "fileMeta t k = Some m"
    by (auto simp: list_filenames_def)
  ultimately show "CHR ''/'' \<notin> set k" by (rule names_sanitisedD(1))
qed

theorem basename_aliasing_witness:
  "download ''dir/a.bin'' stored_example = download ''a.bin'' stored_example
   \<and> (\<exists>r s'. upload test_sha 10 (\<lambda>p. Written)
                (Some \<lparr>originalname = ''docs/b.bin'', buffer = [9, 9, 9]\<rparr>) stored_example =
              Some (Inr r, s') \<and>
            filename r = ''b.bin'' \<and> list_filenames s' = {''b.bin'', ''a.bin''})
   \<and> ''a.bin'' \<in> list_filenames stored_example \<and> CHR ''/'' \<notin> set ''a.bin''"
proof -
  let ?fl = "\<lparr>originalname = ''docs/b.bin'', buffer = [9, 9, 9]\<rparr>"
  note t = basename_aliasing [of "''dir/a.bin''" stored_example]
  have b: "basename ''dir/a.bin'' = ''a.bin''" "basename ''docs/b.bin'' = ''b.bin''"
    by (simp_all add: basename_def)
  have listed: "list_filenames stored_example = {''a.bin''}"
    by (simp add: list_filenames_def stored_example_meta)
  from t [THEN conjunct1]
  have c1: "download ''dir/a.bin'' stored_example = download ''a.bin'' stored_example"
    unfolding b .
  obtain r s' where
    u: "upload test_sha 10 (\<lambda>p. Written) (Some ?fl) stored_example = Some (Inr r, s')"
    by (rule upload_no_failure [of 10]) simp
  have ne: "originalname ?fl \<noteq> []" by simp
  from t [THEN conjunct2, THEN conjunct1, rule_format, OF ne u]
  have c2: "filename r = ''b.bin''" "list_filenames s' = {''b.bin'', ''a.bin''}"
    by (simp_all add: b listed)
  have k: "''a.bin'' \<in> list_filenames stored_example"
    by (simp add: listed)
  from t [THEN conjunct2, THEN conjunct2, rule_format, OF stored_example_reachable k]
  have c3: "CHR ''/'' \<notin> set ''a.bin''" .
  from u c2 have "\<exists>r s'. upload test_sha 10 (\<lambda>p. Written) (Some ?fl) stored_example =
              Some (Inr r, s') \<and>
            filename r = ''b.bin'' \<and> list_filenames s' = {''b.bin'', ''a.bin''}"
    by (intro exI [of _ r] exI [of _ s'] conjI)
  with c1 k c3 show ?thesis by (intro conjI)
qed

section \<open>Recovery of the indexes\<close>

lemma endsWith_append: "endsWith (f @ suf) suf"
  by (simp add: endsWith_def)

lemma bootstrap_snoc: "bootstrap (l @ [p]) s = bootstrap_file (bootstrap l s) p"
  by (simp add: bootstrap_def)

lemma manifests_matchD:
  assumes "manifests_match s"
  shows "fileMeta s f = Some \<lparr>signature = sig, chunkHashes = hs\<rparr> \<longleftrightarrow>
           manifestDir s (f @ ''.json'') = Some (ManifestJson f sig hs)"
    and "manifestDir s p = Some x \<Longrightarrow> \<exists>f sig hs. p = f @ ''.json'' \<and> x = ManifestJson f sig hs"
  using assms unfolding manifests_match_def by blast+

lemma manifests_matchI:
  assumes "\<And>f sig hs. fileMeta s f = Some \<lparr>signature = sig, chunkHashes = hs\<rparr> \<longleftrightarrow>
           manifestDir s (f @ ''.json'') = Some (ManifestJson f sig hs)"
    and "\<And>p x. manifestDir s p = Some x \<Longrightarrow>
           \<exists>f sig hs. p = f @ ''.json'' \<and> x = ManifestJson f sig hs"
  shows "manifests_match s"
  unfolding manifests_match_def using assms by blast

text \<open>What one file of the listing does to the entry of a name, when every manifest is well named.\<close>

lemma bootstrap_file_meta:
  assumes wf: "\<And>p x. manifestDir s p = Some x \<Longrightarrow>
                 \<exists>f sig hs. p = f @ ''.json'' \<and> x = ManifestJson f sig hs"
  shows "fileMeta (bootstrap_file s p) f =
     (if p = f @ ''.json'' then
        (case manifestDir s p of
           Some (ManifestJson g sig hs) \<Rightarrow> Some \<lparr>signature = sig, chunkHashes = hs\<rparr>
         | _ \<Rightarrow> fileMeta s f)
      else fileMeta s f)"
proof (cases "manifestDir s p")
  case None
  then show ?thesis
    by (cases "p = f @ ''.json''") (auto simp: bootstrap_file_def)
next
  case (Some x)
  from wf [OF Some] obtain g sig hs where g: "p = g @ ''.json''" "x = ManifestJson g sig hs"
    by blast
  have e: "endsWith p ''.json''" unfolding g(1) by (rule endsWith_append)
  show ?thesis
  proof (cases "g = f")
    case True
    with Some g e show ?thesis by (simp add: bootstrap_file_def)
  next
    case False
    then have "p \<noteq> f @ ''.json''" using g(1) by simp
    with False Some g e show ?thesis by (simp add: bootstrap_file_def)
  qed
qed

lemma bootstrap_meta:
  assumes wf: "\<And>p x. manifestDir s p = Some x \<Longrightarrow>
                 \<exists>f sig hs. p = f @ ''.json'' \<and> x = ManifestJson f sig hs"
  shows "fileMeta (bootstrap l s) f =
     (if f @ ''.json'' \<in> set l then
        (case manifestDir s (f @ ''.json'') of
           Some (ManifestJson g sig hs) \<Rightarrow> Some \<lparr>signature = sig, chunkHashes = hs\<rparr>
         | _ \<Rightarrow> fileMeta s f)
      else fileMeta s f)"
proof (induction l rule: rev_induct)
  case Nil
  show ?case by (simp add: bootstrap_def)
next
  case (snoc p l)
  let ?t = "bootstrap l s"
  have md: "manifestDir ?t = manifestDir s"
    using bootstrap_disk [of l s] by simp
  have wf': "\<And>p x. manifestDir ?t p = Some x \<Longrightarrow>
                 \<exists>f sig hs. p = f @ ''.json'' \<and> x = ManifestJson f sig hs"
    unfolding md by (rule wf)
  have step: "fileMeta (bootstrap (l @ [p]) s) f =
     (if p = f @ ''.json'' then
        (case manifestDir s p of
           Some (ManifestJson g sig hs) \<Rightarrow> Some \<lparr>signature = sig, chunkHashes = hs\<rparr>
         | _ \<Rightarrow> fileMeta ?t f)
      else fileMeta ?t f)"
    using bootstrap_file_meta [of ?t p f, OF wf'] by (simp only: bootstrap_snoc md)
  show ?case
  proof (cases "p = f @ ''.json''")
    case True
    have "f @ ''.json'' \<in> set (l @ [p])" using True by simp
    then show ?thesis
      using True step snoc.IH
      by (auto split: option.splits manifest_text.splits)
  next
    case False
    then have "f @ ''.json'' \<in> set (l @ [p]) \<longleftrightarrow> f @ ''.json'' \<in> set l" by auto
    then show ?thesis
      using False step snoc.IH by simp
  qed
qed

lemma restart_meta:
  assumes mm: "manifests_match s" and l: "set l = dom (manifestDir s)"
  shows "fileMeta (bootstrap l (restart s)) = fileMeta s"
proof (rule ext)
  fix f
  let ?r = "restart s"
  have wf: "\<And>p x. manifestDir ?r p = Some x \<Longrightarrow>
                 \<exists>f sig hs. p = f @ ''.json'' \<and> x = ManifestJson f sig hs"
    unfolding restart_fields by (rule manifests_matchD(2) [OF mm])
  note b = bootstrap_meta [of ?r l f, OF wf, unfolded restart_fields l]
  show "fileMeta (bootstrap l (restart s)) f = fileMeta s f"
  proof (cases "manifestDir s (f @ ''.json'')")
    case None
    have "fileMeta s f = None"
    proof (cases "fileMeta s f")
      case (Some m)
      then have "fileMeta s f = Some \<lparr>signature = signature m, chunkHashes = chunkHashes m\<rparr>"
        by simp
      with manifests_matchD(1) [OF mm] None show ?thesis by simp
    qed simp
    with None b show ?thesis by (simp add: dom_def)
  next
    case (Some x)
    from manifests_matchD(2) [OF mm Some] obtain g sig hs where
      g: "f @ ''.json'' = g @ ''.json''" "x = ManifestJson g sig hs" by blast
    then have gf: "g = f" by simp
    from Some g(2) gf have md: "manifestDir s (f @ ''.json'') = Some (ManifestJson f sig hs)"
      by simp
    with manifests_matchD(1) [OF mm]
    have "fileMeta s f = Some \<lparr>signature = sig, chunkHashes = hs\<rparr>" by simp
    with md b show ?thesis by (simp add: dom_def)
  qed
qed

lemma download_cong:
  assumes "fileMeta t = fileMeta s" "chunksDir t = chunksDir s"
  shows "fst (download fname t) = fst (download fname s)"
proof -
  have "read_chunks t hs = read_chunks s hs" for hs
    by (simp only: read_chunks_eq assms(2))
  then show ?thesis
    by (simp add: download_def Let_def assms(1) split: option.splits)
qed

section \<open>Manifests and the indexes\<close>

lemma upload_manifests_match:
  assumes mm: "manifests_match s" and u: "upload H S outcome req s = Some (r, s')"
    and nf: "\<And>n. outcome (ManifestPath n) = Written"
  shows "manifests_match s'"
proof (cases req)
  case None
  with mm u show ?thesis by (simp add: upload_def)
next
  case (Some fl)
  with u have "upload H S outcome (Some fl) s = Some (r, s')" by simp
  then show ?thesis
  proof (cases rule: upload_Some_cases)
    case (chunk_write_failed cs e)
    from write_new_chunks_frame(1,2) [OF chunk_write_failed(2)]
    have fr: "fileMeta s' = fileMeta s" "manifestDir s' = manifestDir s" .
    from mm show ?thesis unfolding manifests_match_def fr .
  next
    case (manifest_write_failed cs w s1)
    with nf show ?thesis by simp
  next
    case (stored cs w s1)
    let ?n = "originalName fl"
    let ?sig = "join (map hash cs) ''-''"
    from write_new_chunks_frame(1,2) [OF stored(2)] stored(5)
    have fr: "fileMeta s' = (fileMeta s)(?n \<mapsto> \<lparr>signature = ?sig, chunkHashes = map hash cs\<rparr>)"
      "manifestDir s' = (manifestDir s)(?n @ ''.json'' \<mapsto> ManifestJson ?n ?sig (map hash cs))"
      by simp_all
    show ?thesis
    proof (rule manifests_matchI)
      fix f sig hs
      show "fileMeta s' f = Some \<lparr>signature = sig, chunkHashes = hs\<rparr> \<longleftrightarrow>
           manifestDir s' (f @ ''.json'') = Some (ManifestJson f sig hs)"
      proof (cases "f = ?n")
        case True
        then show ?thesis unfolding fr by auto
      next
        case False
        then have "f @ ''.json'' \<noteq> ?n @ ''.json''" by simp
        with False manifests_matchD(1) [OF mm, of f sig hs] show ?thesis
          unfolding fr by simp
      qed
    next
      fix p x assume a: "manifestDir s' p = Some x"
      show "\<exists>f sig hs. p = f @ ''.json'' \<and> x = ManifestJson f sig hs"
      proof (cases "p = ?n @ ''.json''")
        case True
        with a fr(2) have "x = ManifestJson ?n ?sig (map hash cs)" by simp
        with True show ?thesis by blast
      next
        case False
        with a fr(2) have "manifestDir s p = Some x" by simp
        then show ?thesis by (rule manifests_matchD(2) [OF mm])
      qed
    qed
  qed
qed

lemma restart_manifests_match:
  assumes mm: "manifests_match s" and l: "set l = dom (manifestDir s)"
  shows "manifests_match (bootstrap l (restart s))"
proof -
  have "manifestDir (bootstrap l (restart s)) = manifestDir s"
    using bootstrap_disk [of l "restart s"] by (simp add: restart_fields)
  with restart_meta [OF mm l] mm show ?thesis
    unfolding manifests_match_def by simp
qed

lemma reachable_manifests_match:
  assumes "reachable H S F s" and "\<And>w n. w \<in> F \<Longrightarrow> w (ManifestPath n) = Written"
  shows "manifests_match s"
  using assms(1)
proof (induction rule: reachable.induct)
  case init
  show ?case by (simp add: manifests_match_def init_state_def)
next
  case (upload s outcome req r s')
  from upload.IH upload.hyps(3) assms(2) [OF upload.hyps(2)]
  show ?case by (rule upload_manifests_match)
next
  case (restart s listing)
  from restart.IH restart.hyps(2) show ?case by (rule restart_manifests_match)
qed

lemma bootstrap_file_grows:
  "dom (fileMeta s) \<subseteq> dom (fileMeta (bootstrap_file s p))"
  "fileSignatures s \<subseteq> fileSignatures (bootstrap_file s p)"
  by (auto simp: bootstrap_file_def split: option.splits manifest_text.splits)

lemma bootstrap_grows:
  "dom (fileMeta s) \<subseteq> dom (fileMeta (bootstrap l s)) \<and>
   fileSignatures s \<subseteq> fileSignatures (bootstrap l s)"
  unfolding bootstrap_def
proof (induction l arbitrary: s)
  case Nil
  show ?case by simp
next
  case (Cons p l)
  from Cons.IH [of "bootstrap_file s p"] bootstrap_file_grows [of s p]
  show ?case by (simp del: dom_eq_empty_conv) blast
qed

lemma bootstrap_append: "bootstrap (l1 @ l2) s = bootstrap l2 (bootstrap l1 s)"
  by (simp add: bootstrap_def)

lemma bootstrap_inserts:
  assumes "p \<in> set l" "endsWith p ''.json''"
    and "manifestDir s p = Some (ManifestJson f sig hs)"
  shows "f \<in> list_filenames (bootstrap l s) \<and> sig \<in> fileSignatures (bootstrap l s)"
proof -
  from assms(1) obtain l1 l2 where l: "l = l1 @ p # l2"
    by (auto dest: split_list)
  let ?a = "bootstrap l1 s"
  let ?b = "bootstrap_file ?a p"
  have "manifestDir ?a p = Some (ManifestJson f sig hs)"
    using bootstrap_disk [of l1 s] assms(3) by simp
  with assms(2) have here: "f \<in> dom (fileMeta ?b)" "sig \<in> fileSignatures ?b"
    by (simp_all add: bootstrap_file_def)
  have "bootstrap l s = bootstrap l2 ?b"
    unfolding l by (simp add: bootstrap_def)
  with bootstrap_grows [of ?b l2] here show ?thesis
    by (auto simp: list_filenames_def)
qed

lemma bootstrap_file_skips:
  "manifestDir s p = Some Garbled \<Longrightarrow> bootstrap_file s p = s"
  by (simp add: bootstrap_file_def)

lemma bootstrap_skips:
  "bootstrap l s = bootstrap (filter (\<lambda>p. manifestDir s p \<noteq> Some Garbled) l) s"
proof (induction l rule: rev_induct)
  case Nil
  show ?case by simp
next
  case (snoc p l)
  let ?l' = "filter (\<lambda>p. manifestDir s p \<noteq> Some Garbled) l"
  have md: "manifestDir (bootstrap l s) = manifestDir s"
    using bootstrap_disk [of l s] by simp
  show ?case
  proof (cases "manifestDir s p = Some Garbled")
    case True
    then have "bootstrap_file (bootstrap l s) p = bootstrap l s"
      using md by (simp add: bootstrap_file_skips)
    with True snoc.IH show ?thesis by (simp add: bootstrap_snoc)
  next
    case False
    then have "filter (\<lambda>p. manifestDir s p \<noteq> Some Garbled) (l @ [p]) = ?l' @ [p]"
      by simp
    with snoc.IH show ?thesis by (simp add: bootstrap_snoc)
  qed
qed

section \<open>Crash recovery\<close>

lemma stored_example_manifests:
  "manifestDir stored_example =
     [''a.bin.json'' \<mapsto> ManifestJson ''a.bin'' ''000000000000000000000000000000000000000000010102030405060708090a-000000000000000000000000000000000000000000010b0c0d0e0f1011121314-0000000000000000000000000000000000000000000000000000011516171819'' [''000000000000000000000000000000000000000000010102030405060708090a'', ''000000000000000000000000000000000000000000010b0c0d0e0f1011121314'', ''0000000000000000000000000000000000000000000000000000011516171819'']]"
  by (simp add: stored_example_def upload_def example_file_def example_chunks Let_def
        write_new_chunks_def init_state_def saveManifest_def originalName_cases basename_def)

text \<open>
  C3. Take a state reached from an empty installation by uploads whose manifest writes
  did not fail (their chunk writes may fail in any way), and by restarts. A new process
  over the same disk, after \<open>bootstrap\<close> has read the manifest directory in any order,
  has the same \<open>fileMeta\<close>: the same listed names (as a set) and the same answer to
  every download. For any directory and listing, \<open>bootstrap\<close> returns: every listed
  \<open>.json\<close> file that parses has its filename listed and its signature in
  \<open>fileSignatures\<close> afterwards, and the files that do not parse change nothing.
\<close>

theorem crash_recovery:
  assumes "reachable H S F s"
    and "\<forall>w\<in>F. \<forall>n. w (ManifestPath n) = Written"
    and "set listing = dom (manifestDir s)"
  shows "fileMeta (bootstrap listing (restart s)) = fileMeta s
       \<and> list_filenames (bootstrap listing (restart s)) = list_filenames s
       \<and> (\<forall>fname. fst (download fname (bootstrap listing (restart s))) = fst (download fname s))
       \<and> (\<forall>t l p f sig hs.
             p \<in> set l \<longrightarrow> endsWith p ''.json'' \<longrightarrow>
             manifestDir t p = Some (ManifestJson f sig hs) \<longrightarrow>
               f \<in> list_filenames (bootstrap l t) \<and> sig \<in> fileSignatures (bootstrap l t))
       \<and> (\<forall>t l. bootstrap l t =
                  bootstrap (filter (\<lambda>p. manifestDir t p \<noteq> Some Garbled) l) t)"
proof -
  let ?t = "bootstrap listing (restart s)"
  have mm: "manifests_match s"
    using assms(1) by (rule reachable_manifests_match) (use assms(2) in blast)
  have meta: "fileMeta ?t = fileMeta s"
    using mm assms(3) by (rule restart_meta)
  have disk: "chunksDir ?t = chunksDir s"
    using bootstrap_disk [of listing "restart s"] by (simp add: restart_fields)
  have names: "list_filenames ?t = list_filenames s"
    using meta by (simp add: list_filenames_def)
  have dl: "\<forall>fname. fst (download fname ?t) = fst (download fname s)"
    using download_cong [OF meta disk] by blast
  have ins: "\<forall>t l p f sig hs.
             p \<in> set l \<longrightarrow> endsWith p ''.json'' \<longrightarrow>
             manifestDir t p = Some (ManifestJson f sig hs) \<longrightarrow>
               f \<in> list_filenames (bootstrap l t) \<and> sig \<in> fileSignatures (bootstrap l t)"
    using bootstrap_inserts by blast
  have skip: "\<forall>t l. bootstrap l t =
                  bootstrap (filter (\<lambda>p. manifestDir t p \<noteq> Some Garbled) l) t"
    using bootstrap_skips by blast
  from meta names dl ins skip show ?thesis by (intro conjI)
qed

theorem crash_recovery_witness:
  "list_filenames (bootstrap [''a.bin.json''] (restart stored_example)) = {''a.bin''}
   \<and> fst (download ''a.bin'' (bootstrap [''a.bin.json''] (restart stored_example))) =
       Inr example_buf
   \<and> bootstrap [''x.json'', ''a.bin.json'']
        (restart (stored_example\<lparr>manifestDir := (manifestDir stored_example)
                                  (''x.json'' \<mapsto> Garbled)\<rparr>)) =
     bootstrap [''a.bin.json'']
        (restart (stored_example\<lparr>manifestDir := (manifestDir stored_example)
                                  (''x.json'' \<mapsto> Garbled)\<rparr>))"
proof -
  let ?F = "{\<lambda>p::path. Written}"
  let ?g = "restart (stored_example\<lparr>manifestDir := (manifestDir stored_example)
                                  (''x.json'' \<mapsto> Garbled)\<rparr>)"
  have reach: "reachable test_sha 10 ?F stored_example"
    by (rule stored_example_reachable_in) simp
  have nf: "\<forall>w\<in>?F. \<forall>n. w (ManifestPath n) = Written" by simp
  have l: "set [''a.bin.json''] = dom (manifestDir stored_example)"
    by (simp add: stored_example_manifests)
  note t = crash_recovery [OF reach nf l]
  have listed: "list_filenames stored_example = {''a.bin''}"
    by (simp add: list_filenames_def stored_example_meta)
  have before: "fst (download ''a.bin'' stored_example) = Inr example_buf"
    by (simp add: download_def safeName_def basename_def stored_example_meta
          stored_example_chunks example_buf_def)
  from t [THEN conjunct2, THEN conjunct1] listed
  have c1: "list_filenames (bootstrap [''a.bin.json''] (restart stored_example)) = {''a.bin''}"
    by simp
  from t [THEN conjunct2, THEN conjunct2, THEN conjunct1, rule_format, of "''a.bin''"] before
  have c2: "fst (download ''a.bin'' (bootstrap [''a.bin.json''] (restart stored_example))) =
       Inr example_buf"
    by simp
  have f: "filter (\<lambda>p. manifestDir ?g p \<noteq> Some Garbled) [''x.json'', ''a.bin.json''] =
        [''a.bin.json'']"
    by (simp add: restart_def stored_example_manifests)
  from t [THEN conjunct2, THEN conjunct2, THEN conjunct2, THEN conjunct2, rule_format,
          of "[''x.json'', ''a.bin.json'']" ?g]
  have c3: "bootstrap [''x.json'', ''a.bin.json''] ?g = bootstrap [''a.bin.json''] ?g"
    unfolding f .
  from c1 c2 c3 show ?thesis by (intro conjI)
qed

end
